theory Spec2Isabelle
  imports Complex_Main "HOL-Library.AList"
begin

unbundle bit_operations_syntax

section \<open>Port allocation (sessionManager: findAvailablePort, isPortAvailable)\<close>


datatype error = PortExhausted int int | ERR_SOCKET_BAD_PORT int

definition BASE_PORT :: int where
  "BASE_PORT = 3456"











section \<open>Strings and numbers of the host language\<close>

text \<open>
  A string is the list of its code units; the model covers the code units below 256.
  White space is what \<open>String.prototype.trim\<close> and \<open>parseInt\<close> skip in that range:
  TAB, LF, VT, FF, CR, SPACE and NO-BREAK SPACE.
\<close>

definition isWhiteSpace :: "char \<Rightarrow> bool" where
  "isWhiteSpace c =
     (let n = (of_char c :: nat) in (9 \<le> n \<and> n \<le> 13) \<or> n = 32 \<or> n = 160)"

definition trim :: "string \<Rightarrow> string" where
  "trim s = rev (dropWhile isWhiteSpace (rev (dropWhile isWhiteSpace s)))"

text \<open>\<open>s.split(sep)\<close> for a separator of one code unit.\<close>

fun split :: "char \<Rightarrow> string \<Rightarrow> string list" where
  "split sep [] = [[]]"
| "split sep (c # cs) =
     (if c = sep then [] # split sep cs
      else (case split sep cs of
              [] \<Rightarrow> [[c]]
            | p # ps \<Rightarrow> (c # p) # ps))"

text \<open>
  The numbers of the host are doubles. Those met here hold integers (counts, process
  identifiers, milliseconds) or are \<open>NaN\<close> or infinite; \<open>Finite n\<close> is the double with
  the integer value \<open>n\<close>, with \<open>-0\<close> not told apart from \<open>0\<close> (as \<open>toString\<close>, \<open>||\<close>
  and the arithmetic used here do not). Every integer up to \<open>2^53\<close> in magnitude is a
  double; a larger one is rounded to 53 significant bits, ties to even, and to infinity
  from \<open>2^1024\<close> on.
\<close>

datatype number = Finite int | NaN | PlusInfinity | MinusInfinity

function bitLength :: "nat \<Rightarrow> nat" where
  "bitLength n = (if n = 0 then 0 else Suc (bitLength (n div 2)))"
  by pat_completeness auto
termination
  by (relation "measure id") auto

declare bitLength.simps [simp del]

definition roundToDouble :: "nat \<Rightarrow> nat" where
  "roundToDouble m =
     (if m \<le> 2 ^ 53 then m
      else (let e = bitLength m - 53;
                q = m div 2 ^ e;
                r = m mod 2 ^ e;
                half = 2 ^ (e - 1)
            in (if half < r \<or> (r = half \<and> odd q) then q + 1 else q) * 2 ^ e))"

text \<open>The number value of a mathematical integer.\<close>

definition numberValue :: "int \<Rightarrow> number" where
  "numberValue x =
     (let m = roundToDouble (nat \<bar>x\<bar>) in
      if 2 ^ 1024 \<le> m then (if x < 0 then MinusInfinity else PlusInfinity)
      else Finite (if x < 0 then - int m else int m))"

text \<open>\<open>x + y\<close>, \<open>Math.max(x, y)\<close>, \<open>isNaN(x)\<close> and the truthiness of a number.\<close>

fun add :: "number \<Rightarrow> number \<Rightarrow> number" where
  "add (Finite a) (Finite b) = numberValue (a + b)"
| "add (Finite a) y = y"
| "add NaN y = NaN"
| "add PlusInfinity y = (if y = NaN \<or> y = MinusInfinity then NaN else PlusInfinity)"
| "add MinusInfinity y = (if y = NaN \<or> y = PlusInfinity then NaN else MinusInfinity)"

fun mathMax :: "number \<Rightarrow> number \<Rightarrow> number" where
  "mathMax (Finite a) (Finite b) = Finite (max a b)"
| "mathMax NaN y = NaN"
| "mathMax x NaN = NaN"
| "mathMax PlusInfinity y = PlusInfinity"
| "mathMax x PlusInfinity = PlusInfinity"
| "mathMax MinusInfinity y = y"
| "mathMax x MinusInfinity = x"

definition isNaN :: "number \<Rightarrow> bool" where
  "isNaN x = (x = NaN)"

definition truthy :: "number \<Rightarrow> bool" where
  "truthy x = (x \<noteq> NaN \<and> x \<noteq> Finite 0)"

text \<open>\<open>x || 0\<close> on a number: \<open>NaN\<close> and \<open>0\<close> give \<open>0\<close>.\<close>

definition orZero :: "number \<Rightarrow> number" where
  "orZero x = (if truthy x then x else Finite 0)"

definition digitValue :: "char \<Rightarrow> nat option" where
  "digitValue c =
     (let n = (of_char c :: nat) in
      if 48 \<le> n \<and> n \<le> 57 then Some (n - 48)
      else if 97 \<le> n \<and> n \<le> 122 then Some (n - 87)
      else if 65 \<le> n \<and> n \<le> 90 then Some (n - 55)
      else None)"

definition isRadixDigit :: "nat \<Rightarrow> char \<Rightarrow> bool" where
  "isRadixDigit radix c = (case digitValue c of None \<Rightarrow> False | Some d \<Rightarrow> d < radix)"

definition digitsValue :: "nat \<Rightarrow> string \<Rightarrow> nat" where
  "digitsValue radix z =
     foldl (\<lambda>acc c. acc * radix + (case digitValue c of None \<Rightarrow> 0 | Some d \<Rightarrow> d)) 0 z"

text \<open>
  \<open>parseInt(s)\<close> with no radix: skip leading white space, take a sign, switch to radix 16
  after \<open>0x\<close> or \<open>0X\<close>, and read the longest run of digits; \<open>NaN\<close> when that run is empty,
  else the number value of the integer the digits denote.
\<close>

definition parseInt :: "string \<Rightarrow> number" where
  "parseInt inputString =
     (let s = dropWhile isWhiteSpace inputString;
          negative = (case s of [] \<Rightarrow> False | c # _ \<Rightarrow> c = CHR ''-'');
          s1 = (case s of [] \<Rightarrow> s
                | c # cs \<Rightarrow> if c = CHR ''+'' \<or> c = CHR ''-'' then cs else s);
          hex = (case s1 of a # b # _ \<Rightarrow> a = CHR ''0'' \<and> (b = CHR ''x'' \<or> b = CHR ''X'')
                 | _ \<Rightarrow> False);
          radix = (if hex then 16 else 10);
          s2 = (if hex then drop 2 s1 else s1);
          z = takeWhile (isRadixDigit radix) s2
      in if z = [] then NaN
         else numberValue ((if negative then - 1 else 1) * int (digitsValue radix z)))"

definition digitChar :: "nat \<Rightarrow> char" where
  "digitChar d = ''0123456789'' ! d"

function decimal :: "nat \<Rightarrow> string" where
  "decimal n = (if n < 10 then [digitChar n] else decimal (n div 10) @ [digitChar (n mod 10)])"
  by pat_completeness auto
termination
  by (relation "measure id") auto

declare decimal.simps [simp del]

text \<open>
  \<open>x.toString()\<close>. An integer up to \<open>2^53\<close> is written with all its digits. A larger
  double is written with the fewest significant digits that still denote it (of two
  such numerals the nearer one, of two equally near ones the even one), padded with
  zeros; from 22 digits on the exponent notation is used.
\<close>

function shortestFrom :: "nat \<Rightarrow> nat \<Rightarrow> nat" where
  "shortestFrom x scale =
     (if scale \<le> 1 then x
      else (let lo = (x div scale) * scale;
                hi = lo + scale;
                okLo = (roundToDouble lo = x);
                okHi = (roundToDouble hi = x)
            in if okLo \<and> okHi
               then (if x - lo < hi - x then lo
                     else if hi - x < x - lo then hi
                     else if even (x div scale) then lo else hi)
               else if okLo then lo
               else if okHi then hi
               else shortestFrom x (scale div 10)))"
  by pat_completeness auto
termination
  by (relation "measure (\<lambda>(x, scale). scale)") auto

declare shortestFrom.simps [simp del]

definition shortest :: "nat \<Rightarrow> nat" where
  "shortest x = shortestFrom x (10 ^ (length (decimal x) - 1))"

definition exponential :: "nat \<Rightarrow> string" where
  "exponential v =
     (let digits = decimal v;
          significant = rev (dropWhile (\<lambda>c. c = CHR ''0'') (rev digits));
          exponent = ''e+'' @ decimal (length digits - 1)
      in case significant of
           [] \<Rightarrow> digits
         | [d] \<Rightarrow> d # exponent
         | d # ds \<Rightarrow> d # CHR ''.'' # ds @ exponent)"

definition magnitudeToString :: "nat \<Rightarrow> string" where
  "magnitudeToString m =
     (if m \<le> 2 ^ 53 then decimal m
      else (let v = shortest m
            in if length (decimal v) \<le> 21 then decimal v else exponential v))"

definition toString :: "number \<Rightarrow> string" where
  "toString x =
     (case x of
        NaN \<Rightarrow> ''NaN''
      | PlusInfinity \<Rightarrow> ''Infinity''
      | MinusInfinity \<Rightarrow> ''-Infinity''
      | Finite n \<Rightarrow>
          if n < 0 then CHR ''-'' # magnitudeToString (nat (- n))
          else magnitudeToString (nat n))"

section \<open>Session identity (sessionManager: parseModelPreference, generateSessionId)\<close>

record ModelPreference =
  provider :: "string option"
  model :: "string option"
  raw :: string

definition parseModelPreference :: "string \<Rightarrow> ModelPreference" where
  "parseModelPreference preference =
     (if preference = [] \<or> trim preference = []
      then \<lparr>provider = None, model = None, raw = []\<rparr>
      else
        (let parts = map trim (split CHR '','' preference) in
         if length parts = 2
         then \<lparr>provider = Some (parts ! 0), model = Some (parts ! 1), raw = preference\<rparr>
         else if length parts = 1
         then (let subParts = split CHR ''/'' (parts ! 0) in
               if length subParts = 2
               then \<lparr>provider = Some (subParts ! 0), model = Some (subParts ! 1),
                     raw = preference\<rparr>
               else \<lparr>provider = None, model = Some (parts ! 0), raw = preference\<rparr>)
         else \<lparr>provider = None, model = None, raw = preference\<rparr>))"

subsection \<open>The MD5 digest of the hash library (RFC 1321)\<close>

text \<open>
  A 32-bit word is a natural number below \<open>2^32\<close>; addition wraps, complement and
  rotation are written out on 32 bits. Bytes are natural numbers below 256.
\<close>

definition add32 :: "nat \<Rightarrow> nat \<Rightarrow> nat" where
  "add32 x y = (x + y) mod 4294967296"

definition not32 :: "nat \<Rightarrow> nat" where
  "not32 x = x XOR 4294967295"

definition leftrotate :: "nat \<Rightarrow> nat \<Rightarrow> nat" where
  "leftrotate x c = ((x * 2 ^ c) mod 4294967296) OR (x div 2 ^ (32 - c))"

definition md5_s :: "nat list" where
  "md5_s =
     [7, 12, 17, 22, 7, 12, 17, 22, 7, 12, 17, 22, 7, 12, 17, 22,
      5, 9, 14, 20, 5, 9, 14, 20, 5, 9, 14, 20, 5, 9, 14, 20,
      4, 11, 16, 23, 4, 11, 16, 23, 4, 11, 16, 23, 4, 11, 16, 23,
      6, 10, 15, 21, 6, 10, 15, 21, 6, 10, 15, 21, 6, 10, 15, 21]"

definition md5_K :: "nat list" where
  "md5_K =
     [0xd76aa478, 0xe8c7b756, 0x242070db, 0xc1bdceee, 0xf57c0faf, 0x4787c62a, 0xa8304613,
      0xfd469501, 0x698098d8, 0x8b44f7af, 0xffff5bb1, 0x895cd7be, 0x6b901122, 0xfd987193,
      0xa679438e, 0x49b40821, 0xf61e2562, 0xc040b340, 0x265e5a51, 0xe9b6c7aa, 0xd62f105d,
      0x02441453, 0xd8a1e681, 0xe7d3fbc8, 0x21e1cde6, 0xc33707d6, 0xf4d50d87, 0x455a14ed,
      0xa9e3e905, 0xfcefa3f8, 0x676f02d9, 0x8d2a4c8a, 0xfffa3942, 0x8771f681, 0x6d9d6122,
      0xfde5380c, 0xa4beea44, 0x4bdecfa9, 0xf6bb4b60, 0xbebfbc70, 0x289b7ec6, 0xeaa127fa,
      0xd4ef3085, 0x04881d05, 0xd9d4d039, 0xe6db99e5, 0x1fa27cf8, 0xc4ac5665, 0xf4292244,
      0x432aff97, 0xab9423a7, 0xfc93a039, 0x655b59c3, 0x8f0ccc92, 0xffeff47d, 0x85845dd1,
      0x6fa87e4f, 0xfe2ce6e0, 0xa3014314, 0x4e0811a1, 0xf7537e82, 0xbd3af235, 0x2ad7d2bb,
      0xeb86d391]"

definition md5_F :: "nat \<Rightarrow> nat \<Rightarrow> nat \<Rightarrow> nat \<Rightarrow> nat" where
  "md5_F i b c d =
     (if i < 16 then (b AND c) OR (not32 b AND d)
      else if i < 32 then (d AND b) OR (not32 d AND c)
      else if i < 48 then b XOR c XOR d
      else c XOR (b OR not32 d))"

definition md5_g :: "nat \<Rightarrow> nat" where
  "md5_g i =
     (if i < 16 then i
      else if i < 32 then (5 * i + 1) mod 16
      else if i < 48 then (3 * i + 5) mod 16
      else (7 * i) mod 16)"

type_synonym md5_state = "nat \<times> nat \<times> nat \<times> nat"

fun md5_step :: "nat list \<Rightarrow> md5_state \<Rightarrow> nat \<Rightarrow> md5_state" where
  "md5_step m (a, b, c, d) i =
     (d,
      add32 b (leftrotate
                 (add32 (add32 (add32 (md5_F i b c d) a) (md5_K ! i)) (m ! md5_g i))
                 (md5_s ! i)),
      b,
      c)"

definition word_le :: "nat list \<Rightarrow> nat" where
  "word_le bs = bs ! 0 + 256 * (bs ! 1) + 65536 * (bs ! 2) + 16777216 * (bs ! 3)"

definition chunk_words :: "nat list \<Rightarrow> nat list" where
  "chunk_words chunk = map (\<lambda>j. word_le (take 4 (drop (4 * j) chunk))) [0..<16]"

fun md5_chunk :: "md5_state \<Rightarrow> nat list \<Rightarrow> md5_state" where
  "md5_chunk (a0, b0, c0, d0) chunk =
     (case foldl (md5_step (chunk_words chunk)) (a0, b0, c0, d0) [0..<64] of
        (a, b, c, d) \<Rightarrow> (add32 a0 a, add32 b0 b, add32 c0 c, add32 d0 d))"

definition bytes_le :: "nat \<Rightarrow> nat \<Rightarrow> nat list" where
  "bytes_le n x = map (\<lambda>j. (x div 256 ^ j) mod 256) [0..<n]"

definition md5_pad :: "nat list \<Rightarrow> nat list" where
  "md5_pad msg =
     msg @ [128] @ replicate ((119 - length msg mod 64) mod 64) 0
       @ bytes_le 8 ((8 * length msg) mod 2 ^ 64)"

definition md5_chunks :: "nat list \<Rightarrow> nat list list" where
  "md5_chunks bytes = map (\<lambda>j. take 64 (drop (64 * j) bytes)) [0..<length bytes div 64]"

definition md5 :: "nat list \<Rightarrow> nat list" where
  "md5 msg =
     (case foldl md5_chunk (0x67452301, 0xefcdab89, 0x98badcfe, 0x10325476)
             (md5_chunks (md5_pad msg)) of
        (a, b, c, d) \<Rightarrow> bytes_le 4 a @ bytes_le 4 b @ bytes_le 4 c @ bytes_le 4 d)"

definition hexDigit :: "nat \<Rightarrow> char" where
  "hexDigit d = ''0123456789abcdef'' ! d"

definition hex :: "nat list \<Rightarrow> string" where
  "hex bytes = concat (map (\<lambda>b. [hexDigit (b div 16), hexDigit (b mod 16)]) bytes)"

text \<open>The UTF-8 encoding of a string of code units below 256.\<close>

definition utf8 :: "string \<Rightarrow> nat list" where
  "utf8 s =
     concat (map (\<lambda>c. let n = (of_char c :: nat) in
                        if n < 128 then [n] else [192 + n div 64, 128 + n mod 64]) s)"

text \<open>\<open>createHash('md5').update(s).digest('hex')\<close>.\<close>

definition md5_hex :: "string \<Rightarrow> string" where
  "md5_hex s = hex (md5 (utf8 s))"

definition generateSessionId :: "string \<Rightarrow> string" where
  "generateSessionId modelPreference =
     (if modelPreference = [] then ''default''
      else take 8 (md5_hex modelPreference))"

section \<open>Files and processes\<close>

text \<open>
  A path holds nothing, a regular file with its text, or a directory. Reading, writing
  or unlinking a directory raises, as does reading or unlinking a missing path, and
  creating a file whose parent directory is missing. The files are those of the user
  who runs the router.
\<close>

datatype node = File string | Dir

datatype errno = ENOENT | EISDIR | ENOTDIR | EPERM | ESRCH | ERR_INVALID_ARG_TYPE

type_synonym fs = "string \<Rightarrow> node option"

definition existsSync :: "fs \<Rightarrow> string \<Rightarrow> bool" where
  "existsSync files path = (files path \<noteq> None)"

definition readFileSync :: "fs \<Rightarrow> string \<Rightarrow> errno + string" where
  "readFileSync files path =
     (case files path of
        None \<Rightarrow> Inl ENOENT
      | Some Dir \<Rightarrow> Inl EISDIR
      | Some (File txt) \<Rightarrow> Inr txt)"

text \<open>\<open>path.dirname\<close>: the path up to its last separator.\<close>

definition dirname :: "string \<Rightarrow> string" where
  "dirname path =
     (let isSep = (\<lambda>c. c = CHR ''/'');
          stem = rev (dropWhile isSep (rev path));
          parent = rev (dropWhile isSep (dropWhile (\<lambda>c. \<not> isSep c) (rev stem)))
      in if path = [] then ''.''
         else if stem = [] then ''/''
         else if CHR ''/'' \<notin> set stem then ''.''
         else if parent = [] then ''/''
         else parent)"

definition writeFileSync :: "fs \<Rightarrow> string \<Rightarrow> string \<Rightarrow> errno + fs" where
  "writeFileSync files path txt =
     (case files path of
        Some Dir \<Rightarrow> Inl EISDIR
      | Some (File old) \<Rightarrow> Inr (files(path \<mapsto> File txt))
      | None \<Rightarrow>
          (case files (dirname path) of
             None \<Rightarrow> Inl ENOENT
           | Some (File other) \<Rightarrow> Inl ENOTDIR
           | Some Dir \<Rightarrow> Inr (files(path \<mapsto> File txt))))"

definition unlinkSync :: "fs \<Rightarrow> string \<Rightarrow> errno + fs" where
  "unlinkSync files path =
     (case files path of
        None \<Rightarrow> Inl ENOENT
      | Some Dir \<Rightarrow> Inl EISDIR
      | Some (File txt) \<Rightarrow> Inr (files(path := None)))"

text \<open>
  A process of the host either accepts our signals or belongs to someone else
  (\<open>EPERM\<close>), and either exits on the termination signal or survives it.
\<close>

record proc =
  permitted :: bool
  exitsOnTerm :: bool

type_synonym procs = "int \<Rightarrow> proc option"

datatype signal = SIG0 | SIGTERM | SIGKILL

text \<open>
  \<open>process.kill(pid, signal)\<close> first requires the PID to be a 32-bit integer
  (\<open>pid != (pid | 0)\<close> raises a type error); then the operating system raises \<open>ESRCH\<close>
  or \<open>EPERM\<close>, or delivers the signal. The process table is keyed by what the system
  call can name (a process, or a process group for a PID that is not positive).
\<close>

definition isInt32 :: "number \<Rightarrow> bool" where
  "isInt32 x = (case x of Finite n \<Rightarrow> - 2147483648 \<le> n \<and> n \<le> 2147483647 | _ \<Rightarrow> False)"

definition kill :: "procs \<Rightarrow> number \<Rightarrow> signal \<Rightarrow> errno + procs" where
  "kill ps pid sig =
     (case pid of
        Finite n \<Rightarrow>
          if \<not> isInt32 pid then Inl ERR_INVALID_ARG_TYPE
          else (case ps n of
                  None \<Rightarrow> Inl ESRCH
                | Some p \<Rightarrow>
                    if \<not> permitted p then Inl EPERM
                    else (case sig of
                            SIG0 \<Rightarrow> Inr ps
                          | SIGTERM \<Rightarrow> Inr (if exitsOnTerm p then ps(n := None) else ps)
                          | SIGKILL \<Rightarrow> Inr (ps(n := None))))
      | _ \<Rightarrow> Inl ERR_INVALID_ARG_TYPE)"

section \<open>Session registry (sessionManager)\<close>

record SessionConfig =
  modelPreference :: string
  provider :: "string option"
  model :: "string option"
  sessionId :: string
  port :: int
  pidFile :: string
  referenceCountFile :: string

text \<open>
  Modelled from the spec: \<open>isProcessRunning\<close> of \<open>utils/processCheck\<close> is not among the
  sources. The spec has \<open>isAlive\<close> ask the operating system whether that PID exists,
  probing with the zero signal; any live process with that PID counts as alive, also
  one of another user. For a pid file whose process is dead, and for one that does not
  parse, the spec has the pid file deleted and not-running reported, which the caller
  does in its \<open>catch\<close>: so for a PID that does not exist or is not a PID the probe
  raises, as the zero signal does.
\<close>

definition isProcessRunning :: "procs \<Rightarrow> number \<Rightarrow> errno + bool" where
  "isProcessRunning ps pid =
     (case kill ps pid SIG0 of
        Inr ps' \<Rightarrow> Inr True
      | Inl EPERM \<Rightarrow> Inr True
      | Inl e \<Rightarrow> Inl e)"

text \<open>
  The callers below take the liveness query as a parameter \<open>running\<close>, so that what they
  do can be stated for every behaviour of that query.
\<close>

type_synonym liveness = "procs \<Rightarrow> number \<Rightarrow> errno + bool"

definition cleanupSessionPid :: "fs \<Rightarrow> SessionConfig \<Rightarrow> fs" where
  "cleanupSessionPid fs cfg =
     (if existsSync fs (pidFile cfg)
      then (case unlinkSync fs (pidFile cfg) of
              Inl e \<Rightarrow> fs
            | Inr fs' \<Rightarrow> fs')
      else fs)"

definition saveSessionPid :: "fs \<Rightarrow> SessionConfig \<Rightarrow> number \<Rightarrow> errno + fs" where
  "saveSessionPid fs cfg pid = writeFileSync fs (pidFile cfg) (toString pid)"

text \<open>\<open>getSessionPid\<close> returns \<open>null\<close> (\<open>None\<close>) or a number that is not \<open>NaN\<close>.\<close>

definition getSessionPid :: "fs \<Rightarrow> SessionConfig \<Rightarrow> number option" where
  "getSessionPid fs cfg =
     (if \<not> existsSync fs (pidFile cfg) then None
      else (case readFileSync fs (pidFile cfg) of
              Inr txt \<Rightarrow> (let pid = parseInt txt in if isNaN pid then None else Some pid)
            | Inl e \<Rightarrow> None))"

definition incrementSessionReferenceCount :: "fs \<Rightarrow> SessionConfig \<Rightarrow> errno + fs" where
  "incrementSessionReferenceCount fs cfg =
     (case (if existsSync fs (referenceCountFile cfg)
            then (case readFileSync fs (referenceCountFile cfg) of
                    Inl e \<Rightarrow> Inl e
                  | Inr txt \<Rightarrow> Inr (orZero (parseInt txt)))
            else Inr (Finite 0)) of
        Inl e \<Rightarrow> Inl e
      | Inr count \<Rightarrow>
          writeFileSync fs (referenceCountFile cfg) (toString (add count (Finite 1))))"

definition decrementSessionReferenceCount :: "fs \<Rightarrow> SessionConfig \<Rightarrow> errno + fs" where
  "decrementSessionReferenceCount fs cfg =
     (case (if existsSync fs (referenceCountFile cfg)
            then (case readFileSync fs (referenceCountFile cfg) of
                    Inl e \<Rightarrow> Inl e
                  | Inr txt \<Rightarrow> Inr (orZero (parseInt txt)))
            else Inr (Finite 0)) of
        Inl e \<Rightarrow> Inl e
      | Inr count \<Rightarrow>
          writeFileSync fs (referenceCountFile cfg)
            (toString (mathMax (Finite 0) (add count (Finite (- 1))))))"

definition getSessionReferenceCount :: "fs \<Rightarrow> SessionConfig \<Rightarrow> errno + number" where
  "getSessionReferenceCount fs cfg =
     (if \<not> existsSync fs (referenceCountFile cfg) then Inr (Finite 0)
      else (case readFileSync fs (referenceCountFile cfg) of
              Inl e \<Rightarrow> Inl e
            | Inr txt \<Rightarrow> Inr (orZero (parseInt txt))))"

text \<open>Calling an operation \<open>n\<close> times in a row, stopping at the first call that raises.\<close>

fun repeatedly :: "nat \<Rightarrow> ('s \<Rightarrow> errno + 's) \<Rightarrow> 's \<Rightarrow> errno + 's" where
  "repeatedly 0 f s = Inr s"
| "repeatedly (Suc n) f s = (case f s of Inl e \<Rightarrow> Inl e | Inr s' \<Rightarrow> repeatedly n f s')"

text \<open>The session of the preference \<open>openrouter,gpt-4\<close>, for concrete runs.\<close>

definition demoSession :: SessionConfig where
  "demoSession =
     \<lparr> modelPreference = ''openrouter,gpt-4'', provider = Some ''openrouter'',
       model = Some ''gpt-4'', sessionId = ''fc92274d'', port = 3456,
       pidFile = ''~/.claude-code-router/sessions/fc92274d/router.pid'',
       referenceCountFile = ''~/.claude-code-router/sessions/fc92274d/reference-count.txt'' \<rparr>"


text \<open>
  The sessions directory as \<open>getAllActiveSessions\<close> reads it: the names under it and,
  for each, the parsed \<open>session.json\<close> (\<open>None\<close> when the file is missing or does not
  parse: both are skipped).
\<close>

record SavedConfig =
  savedModelPreference :: string
  savedProvider :: "string option"
  savedModel :: "string option"
  savedPort :: int
  savedSessionId :: string

text \<open>
  \<open>HOME_DIR\<close> comes from \<open>constants\<close>, which is not among the sources; the
  multi-session guide names the directory.
\<close>

definition HOME_DIR :: string where
  "HOME_DIR = ''~/.claude-code-router''"

definition join :: "string \<Rightarrow> string \<Rightarrow> string" where
  "join dir name = dir @ ''/'' @ name"

definition SESSIONS_DIR :: string where
  "SESSIONS_DIR = join HOME_DIR ''sessions''"

record world =
  files :: fs
  procs :: procs
  sessionDirs :: "(string \<times> SavedConfig option) list"

text \<open>
  In \<open>isSessionRunning\<close> the read of the pid file and the awaited liveness query are
  what can raise inside the \<open>try\<close>; the \<open>catch\<close> removes the pid file and answers
  \<open>false\<close>.
\<close>

definition isSessionRunning :: "liveness \<Rightarrow> world \<Rightarrow> SessionConfig \<Rightarrow> bool \<times> world" where
  "isSessionRunning running w cfg =
     (if \<not> existsSync (files w) (pidFile cfg) then (False, w)
      else (case readFileSync (files w) (pidFile cfg) of
              Inl e \<Rightarrow> (False, w\<lparr>files := cleanupSessionPid (files w) cfg\<rparr>)
            | Inr txt \<Rightarrow>
                (case running (procs w) (parseInt txt) of
                   Inl e \<Rightarrow> (False, w\<lparr>files := cleanupSessionPid (files w) cfg\<rparr>)
                 | Inr alive \<Rightarrow> (alive, w))))"

text \<open>The loop of \<open>getAllActiveSessions\<close> over the directory entries.\<close>

fun activeSessions ::
  "liveness \<Rightarrow> world \<Rightarrow> (string \<times> SavedConfig option) list
     \<Rightarrow> SessionConfig list \<times> world" where
  "activeSessions running w [] = ([], w)"
| "activeSessions running w ((name, None) # rest) = activeSessions running w rest"
| "activeSessions running w ((name, Some savedConfig) # rest) =
     (let sessionDir = join SESSIONS_DIR name;
          sessionConfig =
            \<lparr> modelPreference = savedModelPreference savedConfig,
              provider = savedProvider savedConfig,
              model = savedModel savedConfig,
              sessionId = savedSessionId savedConfig,
              port = savedPort savedConfig,
              pidFile = join sessionDir ''router.pid'',
              referenceCountFile = join sessionDir ''reference-count.txt'' \<rparr>;
          (alive, w') = isSessionRunning running w sessionConfig;
          (sessions, w'') = activeSessions running w' rest
      in (if alive then sessionConfig # sessions else sessions, w''))"

definition getAllActiveSessions :: "liveness \<Rightarrow> world \<Rightarrow> SessionConfig list \<times> world" where
  "getAllActiveSessions running w = activeSessions running w (sessionDirs w)"

section \<open>Stopping a session\<close>

text \<open>
  \<open>ccr stop\<close> for a session (\<open>main\<close>, case \<open>"stop"\<close>). Before the switch \<open>main\<close> asks
  \<open>isSessionRunning\<close>; the result is one of the three messages printed. A PID of 0
  is falsy, like a missing one; only \<open>process.kill\<close> can raise inside the \<open>try\<close>, and
  the \<open>catch\<close> prints the failure and removes the pid file.
\<close>

datatype stop_message = SuccessfullyStopped | IsNotRunning | FailedToStop

text \<open>
  Both stop paths contain the same block: if the reference-count file exists, unlink it
  and ignore a failure. \<open>removeReferenceCountFile\<close> is that block.
\<close>

definition removeReferenceCountFile :: "fs \<Rightarrow> SessionConfig \<Rightarrow> fs" where
  "removeReferenceCountFile fs cfg =
     (if existsSync fs (referenceCountFile cfg)
      then (case unlinkSync fs (referenceCountFile cfg) of
              Inl e \<Rightarrow> fs
            | Inr fs' \<Rightarrow> fs')
      else fs)"

definition cli_stop :: "liveness \<Rightarrow> world \<Rightarrow> SessionConfig \<Rightarrow> stop_message \<times> world" where
  "cli_stop running w0 sessionConfig =
     (let (isRunning, w) = isSessionRunning running w0 sessionConfig in
      case getSessionPid (files w) sessionConfig of
        None \<Rightarrow> (IsNotRunning, w)
      | Some pid \<Rightarrow>
          if \<not> truthy pid then (IsNotRunning, w)
          else (case kill (procs w) pid SIGTERM of
                  Inl e \<Rightarrow>
                    (FailedToStop, w\<lparr>files := cleanupSessionPid (files w) sessionConfig\<rparr>)
                | Inr ps \<Rightarrow>
                    (SuccessfullyStopped,
                     w\<lparr>files := removeReferenceCountFile
                                  (cleanupSessionPid (files w) sessionConfig) sessionConfig,
                       procs := ps\<rparr>)))"

text \<open>
  \<open>POST /api/sessions/:sessionId/stop\<close>. The handler suspends while it lists the
  active sessions and while it waits 500 ms after the termination signal; \<open>exited\<close>
  are the processes that end on their own between the listing and the signal.
\<close>

datatype reply_message =
  StoppedSuccessfully | WasAlreadyStopped | NoPidFound
  | SessionNotFound | PermissionDenied | FailedToStopSession

record reply =
  statusCode :: nat
  success :: "bool option"
  message :: reply_message

definition stop_endpoint ::
  "liveness \<Rightarrow> world \<Rightarrow> int set \<Rightarrow> string \<Rightarrow> reply \<times> world" where
  "stop_endpoint running w0 exited wanted =
     (let (sessions, w1) = getAllActiveSessions running w0;
          w = w1\<lparr>procs := (\<lambda>pid. if pid \<in> exited then None else procs w1 pid)\<rparr>
      in case find (\<lambda>s. sessionId s = wanted) sessions of
        None \<Rightarrow> (\<lparr>statusCode = 404, success = None, message = SessionNotFound\<rparr>, w)
      | Some session \<Rightarrow>
          (case getSessionPid (files w) session of
             None \<Rightarrow> (\<lparr>statusCode = 200, success = Some False, message = NoPidFound\<rparr>, w)
           | Some pid \<Rightarrow>
               if \<not> truthy pid
               then (\<lparr>statusCode = 200, success = Some False, message = NoPidFound\<rparr>, w)
               else (case kill (procs w) pid SIGTERM of
                       Inl EPERM \<Rightarrow>
                         (\<lparr>statusCode = 403, success = None, message = PermissionDenied\<rparr>, w)
                     | Inl ESRCH \<Rightarrow>
                         (\<lparr>statusCode = 200, success = Some True,
                           message = WasAlreadyStopped\<rparr>,
                          w\<lparr>files := cleanupSessionPid (files w) session\<rparr>)
                     | Inl e \<Rightarrow>
                         (\<lparr>statusCode = 500, success = None,
                           message = FailedToStopSession\<rparr>, w)
                     | Inr ps1 \<Rightarrow>
                         (let ps2 = (case kill ps1 pid SIG0 of
                                       Inl e \<Rightarrow> ps1
                                     | Inr ps \<Rightarrow>
                                         (case kill ps pid SIGKILL of
                                            Inl e \<Rightarrow> ps
                                          | Inr ps' \<Rightarrow> ps'))
                          in (\<lparr>statusCode = 200, success = Some True,
                                message = StoppedSuccessfully\<rparr>,
                              w\<lparr>files := removeReferenceCountFile
                                           (cleanupSessionPid (files w) session) session,
                                procs := ps2\<rparr>)))))"

text \<open>
  A session on disk with a recorded PID and one reference, for concrete runs, and the
  directory of the session alone.
\<close>

definition demoDirectory :: fs where
  "demoDirectory = [''~/.claude-code-router/sessions/fc92274d'' \<mapsto> Dir]"


definition demoSaved :: SavedConfig where
  "demoSaved =
     \<lparr> savedModelPreference = ''openrouter,gpt-4'', savedProvider = Some ''openrouter'',
       savedModel = Some ''gpt-4'', savedPort = 3456, savedSessionId = ''fc92274d'' \<rparr>"

definition demoWorld :: "proc option \<Rightarrow> world" where
  "demoWorld worker =
     \<lparr> files = demoDirectory(pidFile demoSession \<mapsto> File ''4242'',
                referenceCountFile demoSession \<mapsto> File ''1''),
       procs = (\<lambda>pid. if pid = 4242 then worker else None),
       sessionDirs = [(''fc92274d'', Some demoSaved)] \<rparr>"

section \<open>Request monitoring (utils/monitoring: MonitoringService)\<close>

text \<open>
  Times are epoch milliseconds. Token counts and durations are integers; the average
  response time is a rational number (the host computes it in floating point, which is
  exact on the values used in the concrete runs below).
\<close>

datatype status = Pending | Success | Error

record SessionMetrics =
  sessionId :: string
  startTime :: int
  requestCount :: nat
  totalInputTokens :: int
  totalOutputTokens :: int
  averageResponseTime :: rat
  errors :: nat
  providers :: "(string \<times> nat) list"
  models :: "(string \<times> nat) list"

record RequestLog =
  id' :: string
  timestamp :: int
  sessionId :: string
  method' :: string
  path :: string
  provider :: "string option"
  model :: "string option"
  inputTokens :: "int option"
  outputTokens :: "int option"
  duration :: "int option"
  status :: status
  error :: "string option"
  metadata :: "string \<times> string option"

text \<open>
  \<open>Partial<RequestLog>\<close>: for every field, whether the update object has the key and
  the value it gives; a key of an optional field may be present with value
  \<open>undefined\<close> (\<open>Some None\<close>), which \<open>Object.assign\<close> copies like any other.
\<close>

record RequestUpdate =
  upd_id :: "string option"
  upd_timestamp :: "int option"
  upd_sessionId :: "string option"
  upd_method :: "string option"
  upd_path :: "string option"
  upd_provider :: "string option option"
  upd_model :: "string option option"
  upd_inputTokens :: "int option option"
  upd_outputTokens :: "int option option"
  upd_duration :: "int option option"
  upd_status :: "status option"
  upd_error :: "string option option"
  upd_metadata :: "(string \<times> string option) option"

definition noUpdate :: RequestUpdate where
  "noUpdate =
     \<lparr> upd_id = None, upd_timestamp = None, upd_sessionId = None, upd_method = None,
       upd_path = None, upd_provider = None, upd_model = None, upd_inputTokens = None,
       upd_outputTokens = None, upd_duration = None, upd_status = None, upd_error = None,
       upd_metadata = None \<rparr>"

definition orElse :: "'a option \<Rightarrow> 'a \<Rightarrow> 'a" where
  "orElse new old = (case new of None \<Rightarrow> old | Some v \<Rightarrow> v)"

text \<open>\<open>Object.assign(request, updates)\<close>.\<close>

definition assign :: "RequestLog \<Rightarrow> RequestUpdate \<Rightarrow> RequestLog" where
  "assign request updates =
     \<lparr> id' = orElse (upd_id updates) (id' request),
       timestamp = orElse (upd_timestamp updates) (timestamp request),
       sessionId = orElse (upd_sessionId updates) (RequestLog.sessionId request),
       method' = orElse (upd_method updates) (method' request),
       path = orElse (upd_path updates) (path request),
       provider = orElse (upd_provider updates) (provider request),
       model = orElse (upd_model updates) (model request),
       inputTokens = orElse (upd_inputTokens updates) (inputTokens request),
       outputTokens = orElse (upd_outputTokens updates) (outputTokens request),
       duration = orElse (upd_duration updates) (duration request),
       status = orElse (upd_status updates) (status request),
       error = orElse (upd_error updates) (error request),
       metadata = orElse (upd_metadata updates) (metadata request) \<rparr>"

text \<open>The request object handed to \<open>startRequest\<close>, as far as it is read.\<close>

record IncomingRequest =
  reqSessionId :: "string option"
  reqMethod :: string
  reqUrl :: string
  reqHeaders :: string
  reqBodyModel :: "string option"

text \<open>The response handed to \<open>endRequest\<close>: \<open>body.model\<close> and \<open>body.usage\<close>.\<close>

record ResponseBody =
  bodyModel :: "string option"
  bodyUsage :: "(int option \<times> int option) option"

text \<open>
  One reading of the clock during a call: the epoch milliseconds and the local calendar
  date (\<open>YYYY-MM-DD\<close>) that names the log file of the day.
\<close>

record clock =
  ms :: int
  day :: string

subsection \<open>Events, listeners and subscriber sockets\<close>

datatype event_name =
  request_start | request_update | request_end | metrics_update | logs_cleared | metrics_reset

datatype payload =
  LogPayload RequestLog | MetricsPayload SessionMetrics | FilterPayload "string option"

text \<open>A frame is the object that \<open>ws.send\<close> serialises, taken when it is sent.\<close>

datatype frame =
  InitialFrame "RequestLog list"
  | LogFrame RequestLog
  | MetricsFrame SessionMetrics
  | AllMetricsFrame "SessionMetrics list"

text \<open>
  The two closures that one call of \<open>streamLogs\<close> creates: the number of the call (their
  identity for \<open>removeListener\<close>), the socket and the session filter they capture.
\<close>

datatype listener =
  SendLog nat nat "string option"
  | SendMetrics nat nat "string option"

text \<open>The \<open>close\<close> handler of one call of \<open>streamLogs\<close> holds its two closures.\<close>

datatype close_handler = Cleanup listener listener

record MonitoringService =
  requests :: "(string \<times> RequestLog) list"
  sessionMetrics :: "(string \<times> SessionMetrics) list"
  listeners :: "(event_name \<times> listener) list"
  emitted :: "(event_name \<times> payload) list"
  wsSent :: "nat \<Rightarrow> frame list"
  wsOnClose :: "nat \<Rightarrow> close_handler list"
  nextClosure :: nat
  logFiles :: "string \<Rightarrow> RequestLog list"
  metricsFile :: "(SessionMetrics list \<times> int) option"
  diskWritable :: bool
  console :: "string list"

definition maxLogsInMemory :: nat where
  "maxLogsInMemory = 1000"

text \<open>
  A service with nothing in it: no request, no metrics (no persisted metrics were
  loaded), no subscriber, empty log files.
\<close>

definition emptyService :: "bool \<Rightarrow> MonitoringService" where
  "emptyService writable =
     \<lparr> requests = [], sessionMetrics = [], listeners = [], emitted = [],
       wsSent = (\<lambda>ws. []), wsOnClose = (\<lambda>ws. []), nextClosure = 0,
       logFiles = (\<lambda>day. []), metricsFile = None, diskWritable = writable,
       console = [] \<rparr>"

text \<open>\<open>!sessionId || x.sessionId === sessionId\<close>: no filter, or the same session.\<close>

definition passes :: "string option \<Rightarrow> string \<Rightarrow> bool" where
  "passes sessionFilter sid =
     (case sessionFilter of None \<Rightarrow> True | Some wanted \<Rightarrow> wanted = [] \<or> sid = wanted)"

definition ws_send :: "nat \<Rightarrow> frame \<Rightarrow> (nat \<Rightarrow> frame list) \<Rightarrow> (nat \<Rightarrow> frame list)" where
  "ws_send ws fr sent = sent(ws := sent ws @ [fr])"

text \<open>
  Calling a listener with the payload of an event. \<open>sendLog\<close> is registered for the
  request events only and \<open>sendMetrics\<close> for \<open>metrics:update\<close> only, so the other
  combinations do not occur.
\<close>

fun invoke :: "listener \<Rightarrow> payload \<Rightarrow> (nat \<Rightarrow> frame list) \<Rightarrow> (nat \<Rightarrow> frame list)" where
  "invoke (SendLog call ws sessionFilter) (LogPayload logged) sent =
     (if passes sessionFilter (RequestLog.sessionId logged)
      then ws_send ws (LogFrame logged) sent
      else sent)"
| "invoke (SendMetrics call ws sessionFilter) (MetricsPayload metrics) sent =
     (if passes sessionFilter (SessionMetrics.sessionId metrics)
      then ws_send ws (MetricsFrame metrics) sent
      else sent)"
| "invoke l p sent = sent"

definition emit :: "event_name \<Rightarrow> payload \<Rightarrow> MonitoringService \<Rightarrow> MonitoringService" where
  "emit ev p s =
     s\<lparr> emitted := emitted s @ [(ev, p)],
        wsSent := foldl (\<lambda>sent l. invoke l p sent) (wsSent s)
                    (map snd (filter (\<lambda>el. fst el = ev) (listeners s))) \<rparr>"

text \<open>\<open>removeListener\<close> removes the most recently added instance, if there is one.\<close>

definition removeListener ::
  "event_name \<Rightarrow> listener \<Rightarrow> MonitoringService \<Rightarrow> MonitoringService" where
  "removeListener ev l s = s\<lparr>listeners := rev (remove1 (ev, l) (rev (listeners s)))\<rparr>"

definition on :: "event_name \<Rightarrow> listener \<Rightarrow> MonitoringService \<Rightarrow> MonitoringService" where
  "on ev l s = s\<lparr>listeners := listeners s @ [(ev, l)]\<rparr>"

subsection \<open>Persistence (best effort)\<close>

definition persistMetrics :: "clock \<Rightarrow> MonitoringService \<Rightarrow> MonitoringService" where
  "persistMetrics c s =
     (if diskWritable s
      then s\<lparr>metricsFile := Some (map snd (sessionMetrics s), ms c)\<rparr>
      else s\<lparr>console := console s @ [''Failed to persist metrics:'']\<rparr>)"

definition persistRequestLog ::
  "clock \<Rightarrow> RequestLog \<Rightarrow> MonitoringService \<Rightarrow> MonitoringService" where
  "persistRequestLog c request s =
     (if diskWritable s
      then s\<lparr>logFiles := (logFiles s)(day c := logFiles s (day c) @ [request])\<rparr>
      else s\<lparr>console := console s @ [''Failed to persist request log:'']\<rparr>)"

subsection \<open>The operations\<close>

definition generateRequestId :: "int \<Rightarrow> string \<Rightarrow> string" where
  "generateRequestId now rnd = ''req_'' @ toString (Finite now) @ ''_'' @ rnd"

text \<open>
  The maps of the service keep insertion order, so they are association lists:
  \<open>AList.update\<close> replaces the value of a key in place or appends a new key at the
  end, as \<open>Map.prototype.set\<close> does.

  \<open>archiveOldLogs\<close>: the entries sorted by timestamp (the sort is stable), the first 100
  of them, each appended to the log of the day and deleted from the map.
\<close>

definition archiveOldLogs :: "clock \<Rightarrow> MonitoringService \<Rightarrow> MonitoringService" where
  "archiveOldLogs c s =
     foldl (\<lambda>s' entry. (persistRequestLog c (snd entry) s')
                          \<lparr>requests := AList.delete (fst entry) (requests s')\<rparr>)
       s (take 100 (sort_key (\<lambda>entry. timestamp (snd entry)) (requests s)))"

definition startRequest ::
  "clock \<Rightarrow> string \<Rightarrow> IncomingRequest \<Rightarrow> MonitoringService \<Rightarrow> string \<times> MonitoringService" where
  "startRequest c rnd req s =
     (let requestId = generateRequestId (ms c) rnd;
          sessionId = (case reqSessionId req of
                         None \<Rightarrow> ''default''
                       | Some sid \<Rightarrow> if sid = [] then ''default'' else sid);
          requestLog =
            \<lparr> id' = requestId, timestamp = ms c, sessionId = sessionId,
              method' = reqMethod req, path = reqUrl req, provider = None, model = None,
              inputTokens = None, outputTokens = None, duration = None, status = Pending,
              error = None, metadata = (reqHeaders req, reqBodyModel req) \<rparr>;
          s1 = s\<lparr>requests := AList.update requestId requestLog (requests s)\<rparr>;
          s2 = emit request_start (LogPayload requestLog) s1;
          s3 = (if length (requests s2) > maxLogsInMemory then archiveOldLogs c s2 else s2)
      in (requestId, s3))"

definition bump :: "string \<Rightarrow> (string \<times> nat) list \<Rightarrow> (string \<times> nat) list" where
  "bump key counts =
     AList.update key ((case map_of counts key of None \<Rightarrow> 0 | Some n \<Rightarrow> n) + 1) counts"

text \<open>
  \<open>updateSessionMetrics\<close> fetches or creates the metrics object of the session and
  updates it field by field (\<open>m0\<close> to \<open>m7\<close>); a token count or a duration of 0 and an
  empty provider or model name are falsy and skipped.
\<close>

definition updateSessionMetrics ::
  "clock \<Rightarrow> RequestLog \<Rightarrow> MonitoringService \<Rightarrow> MonitoringService" where
  "updateSessionMetrics c request s =
     (let m0 = (case map_of (sessionMetrics s) (RequestLog.sessionId request) of
                  Some metrics \<Rightarrow> metrics
                | None \<Rightarrow>
                    \<lparr> SessionMetrics.sessionId = RequestLog.sessionId request, startTime = ms c,
                      requestCount = 0, totalInputTokens = 0, totalOutputTokens = 0,
                      averageResponseTime = 0, errors = 0, providers = [], models = [] \<rparr>);
          m1 = m0\<lparr>requestCount := requestCount m0 + 1\<rparr>;
          m2 = (if status request = Error then m1\<lparr>errors := errors m1 + 1\<rparr> else m1);
          m3 = (case inputTokens request of
                  None \<Rightarrow> m2
                | Some n \<Rightarrow>
                    if n = 0 then m2 else m2\<lparr>totalInputTokens := totalInputTokens m2 + n\<rparr>);
          m4 = (case outputTokens request of
                  None \<Rightarrow> m3
                | Some n \<Rightarrow>
                    if n = 0 then m3 else m3\<lparr>totalOutputTokens := totalOutputTokens m3 + n\<rparr>);
          m5 = (case duration request of
                  None \<Rightarrow> m4
                | Some d \<Rightarrow>
                    if d \<noteq> 0 \<and> status request = Success
                    then m4\<lparr>averageResponseTime :=
                              (averageResponseTime m4 * of_nat (requestCount m4 - 1) + of_int d)
                                / of_nat (requestCount m4)\<rparr>
                    else m4);
          m6 = (case provider request of
                  None \<Rightarrow> m5
                | Some p \<Rightarrow> if p = [] then m5 else m5\<lparr>providers := bump p (providers m5)\<rparr>);
          m7 = (case model request of
                  None \<Rightarrow> m6
                | Some p \<Rightarrow> if p = [] then m6 else m6\<lparr>models := bump p (models m6)\<rparr>);
          s1 = s\<lparr>sessionMetrics :=
                   AList.update (RequestLog.sessionId request) m7 (sessionMetrics s)\<rparr>
      in emit metrics_update (MetricsPayload m7) (persistMetrics c s1))"

definition updateRequest ::
  "clock \<Rightarrow> string \<Rightarrow> RequestUpdate \<Rightarrow> MonitoringService \<Rightarrow> MonitoringService" where
  "updateRequest c requestId updates s =
     (case map_of (requests s) requestId of
        None \<Rightarrow> s
      | Some stored \<Rightarrow>
          (let request = assign stored updates;
               s1 = s\<lparr>requests := AList.update requestId request (requests s)\<rparr>;
               s2 = (if RequestLog.sessionId request \<noteq> []
                     then updateSessionMetrics c request s1 else s1);
               s3 = emit request_update (LogPayload request) s2
           in if upd_status updates = Some Success \<or> upd_status updates = Some Error
              then persistRequestLog c request s3
              else s3))"

text \<open>
  \<open>endRequest\<close>: \<open>err\<close> is \<open>None\<close> when no error is passed and otherwise holds its
  \<open>message\<close>, if it has one. The payload of \<open>request:end\<close> is the entry looked up again
  after the update, which is still in the map (\<open>updateRequest\<close> deletes nothing).
\<close>

definition endRequest ::
  "clock \<Rightarrow> string \<Rightarrow> ResponseBody option \<Rightarrow> string option option \<Rightarrow> MonitoringService
     \<Rightarrow> MonitoringService" where
  "endRequest c requestId response err s =
     (case map_of (requests s) requestId of
        None \<Rightarrow> s
      | Some request \<Rightarrow>
          (let u0 = noUpdate
                 \<lparr> upd_duration := Some (Some (ms c - timestamp request)),
                   upd_status := Some (if err \<noteq> None then Error else Success),
                   upd_error := Some (case err of None \<Rightarrow> None | Some msg \<Rightarrow> msg) \<rparr>;
               u1 = (case response of
                       None \<Rightarrow> u0
                     | Some body \<Rightarrow>
                         (case bodyModel body of
                            None \<Rightarrow> u0
                          | Some m \<Rightarrow>
                              if m = [] then u0
                              else (let modelParts = split CHR '','' m in
                                    if length modelParts = 2
                                    then u0\<lparr> upd_provider := Some (Some (modelParts ! 0)),
                                             upd_model := Some (Some (modelParts ! 1)) \<rparr>
                                    else u0\<lparr>upd_model := Some (Some m)\<rparr>)));
               u2 = (case response of
                       None \<Rightarrow> u1
                     | Some body \<Rightarrow>
                         (case bodyUsage body of
                            None \<Rightarrow> u1
                          | Some usage \<Rightarrow>
                              u1\<lparr> upd_inputTokens := Some (fst usage),
                                   upd_outputTokens := Some (snd usage) \<rparr>));
               s1 = updateRequest c requestId u2 s
           in (case map_of (requests s1) requestId of
                 None \<Rightarrow> s1
               | Some ended \<Rightarrow> emit request_end (LogPayload ended) s1)))"

definition getRecentRequests ::
  "string option \<Rightarrow> nat \<Rightarrow> MonitoringService \<Rightarrow> RequestLog list" where
  "getRecentRequests sessionFilter limit s =
     take limit
       (sort_key (\<lambda>r. - timestamp r)
          (filter (\<lambda>r. passes sessionFilter (RequestLog.sessionId r)) (map snd (requests s))))"

definition getSessionMetrics :: "string \<Rightarrow> MonitoringService \<Rightarrow> SessionMetrics option" where
  "getSessionMetrics sid s = map_of (sessionMetrics s) sid"

definition getAllSessionMetrics :: "MonitoringService \<Rightarrow> SessionMetrics list" where
  "getAllSessionMetrics s = map snd (sessionMetrics s)"

definition streamLogs :: "nat \<Rightarrow> string option \<Rightarrow> MonitoringService \<Rightarrow> MonitoringService" where
  "streamLogs ws sessionFilter s =
     (let sendLog = SendLog (nextClosure s) ws sessionFilter;
          sendMetrics = SendMetrics (nextClosure s) ws sessionFilter;
          recentLogs = getRecentRequests sessionFilter 50 s;
          s1 = s\<lparr>wsSent := ws_send ws (InitialFrame recentLogs) (wsSent s)\<rparr>;
          s2 = (case sessionFilter of
                  None \<Rightarrow>
                    s1\<lparr>wsSent := ws_send ws (AllMetricsFrame (getAllSessionMetrics s1))
                                    (wsSent s1)\<rparr>
                | Some sid \<Rightarrow>
                    if sid = []
                    then s1\<lparr>wsSent := ws_send ws (AllMetricsFrame (getAllSessionMetrics s1))
                                          (wsSent s1)\<rparr>
                    else (case getSessionMetrics sid s1 of
                            None \<Rightarrow> s1
                          | Some metrics \<Rightarrow>
                              s1\<lparr>wsSent := ws_send ws (MetricsFrame metrics) (wsSent s1)\<rparr>));
          s3 = on metrics_update sendMetrics
                 (on request_end sendLog (on request_update sendLog (on request_start sendLog s2)))
      in s3\<lparr> wsOnClose := (wsOnClose s3)(ws := wsOnClose s3 ws @ [Cleanup sendLog sendMetrics]),
              nextClosure := nextClosure s3 + 1 \<rparr>)"

text \<open>The \<open>close\<close> event of a socket runs the handlers registered on it.\<close>

fun runCleanup :: "close_handler \<Rightarrow> MonitoringService \<Rightarrow> MonitoringService" where
  "runCleanup (Cleanup sendLog sendMetrics) s =
     removeListener metrics_update sendMetrics
       (removeListener request_end sendLog
          (removeListener request_update sendLog
             (removeListener request_start sendLog s)))"

definition wsClose :: "nat \<Rightarrow> MonitoringService \<Rightarrow> MonitoringService" where
  "wsClose ws s = foldl (\<lambda>s' h. runCleanup h s') s (wsOnClose s ws)"

definition clearLogs :: "string option \<Rightarrow> MonitoringService \<Rightarrow> MonitoringService" where
  "clearLogs sessionFilter s =
     emit logs_cleared (FilterPayload sessionFilter)
       (case sessionFilter of
          None \<Rightarrow> s\<lparr>requests := []\<rparr>
        | Some sid \<Rightarrow>
            if sid = [] then s\<lparr>requests := []\<rparr>
            else s\<lparr>requests := filter (\<lambda>entry. RequestLog.sessionId (snd entry) \<noteq> sid)
                                   (requests s)\<rparr>)"

definition resetMetrics ::
  "clock \<Rightarrow> string option \<Rightarrow> MonitoringService \<Rightarrow> MonitoringService" where
  "resetMetrics c sessionFilter s =
     emit metrics_reset (FilterPayload sessionFilter)
       (persistMetrics c
          (case sessionFilter of
             None \<Rightarrow> s\<lparr>sessionMetrics := []\<rparr>
           | Some sid \<Rightarrow>
               if sid = [] then s\<lparr>sessionMetrics := []\<rparr>
               else s\<lparr>sessionMetrics := AList.delete sid (sessionMetrics s)\<rparr>))"

subsection \<open>Runs of the service\<close>

datatype operation =
  StartRequest clock string IncomingRequest
  | UpdateRequest clock string RequestUpdate
  | EndRequest clock string "ResponseBody option" "string option option"
  | StreamLogs nat "string option"
  | WsClose nat
  | ClearLogs "string option"
  | ResetMetrics clock "string option"

fun step :: "MonitoringService \<Rightarrow> operation \<Rightarrow> MonitoringService" where
  "step s (StartRequest c rnd req) = snd (startRequest c rnd req s)"
| "step s (UpdateRequest c requestId updates) = updateRequest c requestId updates s"
| "step s (EndRequest c requestId response err) = endRequest c requestId response err s"
| "step s (StreamLogs ws sessionFilter) = streamLogs ws sessionFilter s"
| "step s (WsClose ws) = wsClose ws s"
| "step s (ClearLogs sessionFilter) = clearLogs sessionFilter s"
| "step s (ResetMetrics c sessionFilter) = resetMetrics c sessionFilter s"

definition run :: "MonitoringService \<Rightarrow> operation list \<Rightarrow> MonitoringService" where
  "run s ops = foldl step s ops"

subsection \<open>The batch mean that the running average is compared with\<close>

text \<open>
  The durations of the entries in memory that belong to a session and have status
  \<open>success\<close>, and the arithmetic mean of a list of durations.
\<close>

definition successDurations :: "string \<Rightarrow> MonitoringService \<Rightarrow> int list" where
  "successDurations sid s =
     concat (map (\<lambda>r. case duration r of None \<Rightarrow> [] | Some d \<Rightarrow> [d])
               (filter (\<lambda>r. RequestLog.sessionId r = sid \<and> status r = Success)
                  (map snd (requests s))))"

definition mean :: "int list \<Rightarrow> rat" where
  "mean ds = of_int (sum_list ds) / of_nat (length ds)"

subsection \<open>Concrete requests\<close>

definition demoRequest :: IncomingRequest where
  "demoRequest =
     \<lparr> reqSessionId = None, reqMethod = ''POST'', reqUrl = ''/v1/messages'',
       reqHeaders = [], reqBodyModel = None \<rparr>"

definition clockAt :: "int \<Rightarrow> clock" where
  "clockAt t = \<lparr>ms = t, day = ''2025-01-01''\<rparr>"

text \<open>One failed request, then one successful request that takes 100 ms.\<close>

definition failureThenSuccess :: "operation list" where
  "failureThenSuccess =
     [StartRequest (clockAt 1000) ''a'' demoRequest,
      EndRequest (clockAt 1100) ''req_1000_a'' None (Some (Some ''upstream failed'')),
      StartRequest (clockAt 2000) ''b'' demoRequest,
      EndRequest (clockAt 2100) ''req_2000_b'' None None]"

text \<open>Three successful requests that take 100, 200 and 300 ms.\<close>

definition threeSuccesses :: "operation list" where
  "threeSuccesses =
     [StartRequest (clockAt 1000) ''a'' demoRequest,
      EndRequest (clockAt 1100) ''req_1000_a'' None None,
      StartRequest (clockAt 2000) ''b'' demoRequest,
      EndRequest (clockAt 2200) ''req_2000_b'' None None,
      StartRequest (clockAt 3000) ''c'' demoRequest,
      EndRequest (clockAt 3300) ''req_3000_c'' None None]"

subsection \<open>Feeding requests through \<open>startRequest\<close>\<close>

text \<open>
  A call of \<open>startRequest\<close> is given by the clock reading, the random suffix of the
  request id and the request. \<open>pendingLog\<close> is the entry such a call is expected to
  store, \<open>requestIdOf\<close> its id.
\<close>

type_synonym start_input = "clock \<times> string \<times> IncomingRequest"

definition requestIdOf :: "start_input \<Rightarrow> string" where
  "requestIdOf x = generateRequestId (ms (fst x)) (fst (snd x))"

definition pendingLog :: "start_input \<Rightarrow> RequestLog" where
  "pendingLog x =
     \<lparr> id' = requestIdOf x, timestamp = ms (fst x),
       sessionId = (case reqSessionId (snd (snd x)) of
                      None \<Rightarrow> ''default''
                    | Some sid \<Rightarrow> if sid = [] then ''default'' else sid),
       method' = reqMethod (snd (snd x)), path = reqUrl (snd (snd x)), provider = None,
       model = None, inputTokens = None, outputTokens = None, duration = None,
       status = Pending, error = None,
       metadata = (reqHeaders (snd (snd x)), reqBodyModel (snd (snd x))) \<rparr>"

definition startAll :: "start_input list \<Rightarrow> operation list" where
  "startAll inputs = map (\<lambda>x. StartRequest (fst x) (fst (snd x)) (snd (snd x))) inputs"

text \<open>
  The \<open>n\<close> oldest of a list of entries: the first \<open>n\<close> in the order of their timestamps,
  entries of one timestamp in the order of the list.
\<close>

definition oldest :: "nat \<Rightarrow> RequestLog list \<Rightarrow> RequestLog list" where
  "oldest n logs = take n (sort_key timestamp logs)"

text \<open>1100 requests, one per millisecond, with an empty random suffix.\<close>

definition manyRequests :: "start_input list" where
  "manyRequests =
     map (\<lambda>i. (\<lparr>ms = 1700000000000 + int i, day = ''2025-01-01''\<rparr>, [], demoRequest))
       [0..<1100]"

text \<open>1100 requests under a clock that runs backwards, one millisecond per request.\<close>

definition backwardRequests :: "start_input list" where
  "backwardRequests =
     map (\<lambda>i. (\<lparr>ms = 1700000001100 - int i, day = ''2025-01-01''\<rparr>, [], demoRequest))
       [0..<1100]"

subsection \<open>Subscribers\<close>

fun socketOf :: "listener \<Rightarrow> nat" where
  "socketOf (SendLog call ws sessionFilter) = ws"
| "socketOf (SendMetrics call ws sessionFilter) = ws"

fun callOf :: "listener \<Rightarrow> nat" where
  "callOf (SendLog call ws sessionFilter) = call"
| "callOf (SendMetrics call ws sessionFilter) = call"

text \<open>Whether an operation subscribes the socket \<open>ws\<close>.\<close>

fun subscribes :: "nat \<Rightarrow> operation \<Rightarrow> bool" where
  "subscribes ws (StreamLogs ws' sessionFilter) = (ws' = ws)"
| "subscribes ws operation = False"

text \<open>A run with a subscription, live traffic, the disconnect, and more traffic.\<close>

definition beforeClose :: "operation list" where
  "beforeClose =
     [StartRequest (clockAt 1000) ''a'' demoRequest,
      StreamLogs 7 None,
      EndRequest (clockAt 1100) ''req_1000_a'' None None,
      StreamLogs 8 (Some ''default'')]"

definition afterClose :: "operation list" where
  "afterClose =
     [StartRequest (clockAt 2000) ''b'' demoRequest,
      EndRequest (clockAt 2100) ''req_2000_b'' None None]"

text \<open>
  What the disconnect of a socket has to undo: the listener registrations that a close
  handler removes, and the property that every registered listener is removed by a
  close handler of the socket it sends to (and was created by an earlier call).
\<close>

fun removed :: "close_handler \<Rightarrow> (event_name \<times> listener) set" where
  "removed (Cleanup sendLog sendMetrics) =
     {(request_start, sendLog), (request_update, sendLog), (request_end, sendLog),
      (metrics_update, sendMetrics)}"

definition registered :: "MonitoringService \<Rightarrow> bool" where
  "registered s =
     (distinct (listeners s)
      \<and> (\<forall>el \<in> set (listeners s).
            callOf (snd el) < nextClosure s
            \<and> (\<exists>h \<in> set (wsOnClose s (socketOf (snd el))). el \<in> removed h)))"

text \<open>
  \<open>inert ws s s'\<close>: from \<open>s\<close> to \<open>s'\<close> the listeners, close handlers and closure
  counter are the same, the frames of socket \<open>ws\<close> have only grown at the end, and
  they have not grown at all if no listener of \<open>s\<close> sends to \<open>ws\<close>.
\<close>

definition quiet :: "nat \<Rightarrow> MonitoringService \<Rightarrow> bool" where
  "quiet ws s = (\<forall>el \<in> set (listeners s). socketOf (snd el) \<noteq> ws)"

definition inert :: "nat \<Rightarrow> MonitoringService \<Rightarrow> MonitoringService \<Rightarrow> bool" where
  "inert ws s s' =
     (listeners s' = listeners s \<and> wsOnClose s' = wsOnClose s \<and> nextClosure s' = nextClosure s
      \<and> (\<exists>frames. wsSent s' ws = wsSent s ws @ frames)
      \<and> (quiet ws s \<longrightarrow> wsSent s' ws = wsSent s ws))"

section \<open>Properties of the port allocator\<close>















section \<open>Decimal rendering and \<open>parseInt\<close> are inverse\<close>

text \<open>Integers up to \<open>2^53\<close> in magnitude are their own number value.\<close>

lemma roundToDouble_exact: "m \<le> 2 ^ 53 \<Longrightarrow> roundToDouble m = m"
  by (simp add: roundToDouble_def)

lemma numberValue_exact: "\<bar>x\<bar> \<le> 2 ^ 53 \<Longrightarrow> numberValue x = Finite x"
proof -
  assume a: "\<bar>x\<bar> \<le> 2 ^ 53"
  then have m: "nat \<bar>x\<bar> \<le> 2 ^ 53" by (simp add: nat_le_iff)
  have "(2::nat) ^ 53 < 2 ^ 1024" by simp
  then have small: "\<not> 2 ^ 1024 \<le> nat \<bar>x\<bar>" using m by linarith
  show ?thesis
    unfolding numberValue_def roundToDouble_exact[OF m] Let_def using small by auto
qed

lemmas number_eval =
  parseInt_def isWhiteSpace_def isRadixDigit_def digitValue_def digitsValue_def orZero_def
  truthy_def numberValue_exact

text \<open>At \<open>2^53\<close> an increment is lost: \<open>2^53 + 1\<close> is not a double.\<close>

lemma rounded_at_2_53: "numberValue 9007199254740993 = Finite 9007199254740992"
  by (simp add: numberValue_def roundToDouble_def bitLength.simps Let_def)

lemma increment_lost: "add (Finite 9007199254740992) (Finite 1) = Finite 9007199254740992"
  by (simp add: rounded_at_2_53)

lemma digit_cases: "d < 10 \<Longrightarrow> d \<in> {0, 1, 2, 3, 4, 5, 6, 7, 8, 9 :: nat}"
  by auto

lemma digitValue_digitChar: "d < 10 \<Longrightarrow> digitValue (digitChar d) = Some d"
  using digit_cases[of d] by (auto simp add: digitValue_def digitChar_def)

lemma digitChar_plain:
  "d < 10 \<Longrightarrow> \<not> isWhiteSpace (digitChar d) \<and> digitChar d \<noteq> CHR ''+''
     \<and> digitChar d \<noteq> CHR ''-'' \<and> digitChar d \<noteq> CHR ''x'' \<and> digitChar d \<noteq> CHR ''X''"
  using digit_cases[of d] by (auto simp add: isWhiteSpace_def digitChar_def)

lemma decimal_small: "n < 10 \<Longrightarrow> decimal n = [digitChar n]"
  by (simp add: decimal.simps[of n])

lemma decimal_large: "\<not> n < 10 \<Longrightarrow> decimal n = decimal (n div 10) @ [digitChar (n mod 10)]"
  by (simp add: decimal.simps[of n])

lemma decimal_digits: "c \<in> set (decimal n) \<Longrightarrow> \<exists>d<10. c = digitChar d"
proof (induction n arbitrary: c rule: decimal.induct)
  case (1 n)
  show ?case
  proof (cases "n < 10")
    case True
    then show ?thesis using "1.prems" by (auto simp add: decimal_small)
  next
    case False
    have "c \<in> set (decimal (n div 10)) \<or> c = digitChar (n mod 10)"
      using "1.prems" False by (auto simp add: decimal_large)
    then show ?thesis
    proof
      assume "c \<in> set (decimal (n div 10))"
      then show ?thesis using "1.IH"[OF False] by blast
    next
      assume "c = digitChar (n mod 10)"
      moreover have "n mod 10 < 10" by simp
      ultimately show ?thesis by blast
    qed
  qed
qed

lemma decimal_nonempty: "decimal n \<noteq> []"
  by (cases "n < 10") (simp_all add: decimal_small decimal_large)

lemma digitsValue_snoc:
  "digitsValue radix (z @ [c]) =
     digitsValue radix z * radix + (case digitValue c of None \<Rightarrow> 0 | Some d \<Rightarrow> d)"
  by (simp add: digitsValue_def)

lemma digitsValue_decimal: "digitsValue 10 (decimal n) = n"
proof (induction n rule: decimal.induct)
  case (1 n)
  show ?case
  proof (cases "n < 10")
    case True
    then show ?thesis
      by (simp add: decimal_small digitsValue_def digitValue_digitChar)
  next
    case False
    have "digitsValue 10 (decimal n) = digitsValue 10 (decimal (n div 10)) * 10 + n mod 10"
      using False by (simp add: decimal_large digitsValue_snoc digitValue_digitChar)
    then show ?thesis using "1.IH"[OF False] by simp
  qed
qed

lemma takeWhile_decimal: "takeWhile (isRadixDigit 10) (decimal n) = decimal n"
proof -
  have "\<forall>c \<in> set (decimal n). isRadixDigit 10 c"
  proof
    fix c assume "c \<in> set (decimal n)"
    then obtain d where "d < 10" "c = digitChar d" using decimal_digits by blast
    then show "isRadixDigit 10 c" by (simp add: isRadixDigit_def digitValue_digitChar)
  qed
  then show ?thesis by (simp add: takeWhile_eq_all_conv)
qed

lemma parseInt_decimal: "parseInt (decimal n) = numberValue (int n)"
proof -
  obtain c cs where dec: "decimal n = c # cs"
    using decimal_nonempty[of n] by (cases "decimal n") auto
  obtain d where d: "d < 10" "c = digitChar d"
    using decimal_digits[of c n] dec by auto
  have plain: "\<not> isWhiteSpace c" "c \<noteq> CHR ''+''" "c \<noteq> CHR ''-''"
    using digitChar_plain[OF d(1)] d(2) by simp_all
  have nohex: "\<not> (case c # cs of a # b # _ \<Rightarrow> a = CHR ''0'' \<and> (b = CHR ''x'' \<or> b = CHR ''X'')
                 | _ \<Rightarrow> False)"
  proof (cases cs)
    case Nil
    then show ?thesis by simp
  next
    case (Cons b bs)
    then have "b \<in> set (decimal n)" using dec by simp
    then obtain e where e: "e < 10" "b = digitChar e" using decimal_digits by blast
    have "b \<noteq> CHR ''x'' \<and> b \<noteq> CHR ''X''"
      using digitChar_plain[OF e(1)] e(2) by simp
    then show ?thesis using Cons by simp
  qed
  have tw: "takeWhile (isRadixDigit 10) (c # cs) = c # cs"
    using takeWhile_decimal[of n] dec by simp
  have dv: "digitsValue 10 (c # cs) = n"
    using digitsValue_decimal[of n] dec by simp
  show ?thesis
    unfolding parseInt_def dec using plain nohex
    by (simp add: Let_def tw dv del: takeWhile.simps)
qed

lemma toString_exact:
  "0 \<le> n \<Longrightarrow> n \<le> 2 ^ 53 \<Longrightarrow> toString (Finite n) = decimal (nat n)"
  by (simp add: toString_def magnitudeToString_def nat_le_iff)

lemma parseInt_toString:
  "0 \<le> n \<Longrightarrow> n \<le> 2 ^ 53 \<Longrightarrow> parseInt (toString (Finite n)) = Finite n"
  by (simp add: toString_exact parseInt_decimal numberValue_exact)

section \<open>Properties of the session identity\<close>

lemmas md5_eval =
  md5_hex_def hex_def hexDigit_def utf8_def md5_def md5_chunks_def md5_pad_def bytes_le_def
  chunk_words_def word_le_def md5_g_def md5_F_def md5_K_def md5_s_def leftrotate_def
  not32_def add32_def

lemma upt_0_numeral: "[0..<numeral n] = 0 # [Suc 0..<numeral n]"
  by (simp add: upt_rec[of 0])

lemma upt_1_numeral:
  "[Suc 0..<numeral n] = (if Suc 0 < numeral n then Suc 0 # [2..<numeral n] else [])"
  using upt_rec[of "Suc 0" "numeral n"] by (simp only: numeral_2_eq_2)

lemma replicate_numeral: "replicate (numeral n) x = x # replicate (pred_numeral n) x"
  by (simp add: numeral_eq_Suc)

lemmas list_eval = upt_0_numeral upt_1_numeral replicate_numeral

subsection \<open>The identifier of a non-empty preference is eight hexadecimal digits\<close>

lemma bytes_le_byte: "b \<in> set (bytes_le n x) \<Longrightarrow> b < 256"
  by (auto simp add: bytes_le_def)

lemma length_bytes_le: "length (bytes_le n x) = n"
  by (simp add: bytes_le_def)

lemma md5_shape: "length (md5 msg) = 16 \<and> (\<forall>b \<in> set (md5 msg). b < 256)"
proof -
  obtain a b c d where
    "foldl md5_chunk (0x67452301, 0xefcdab89, 0x98badcfe, 0x10325476)
       (md5_chunks (md5_pad msg)) = (a, b, c, d)"
    using prod_cases4 by blast
  then have "md5 msg = bytes_le 4 a @ bytes_le 4 b @ bytes_le 4 c @ bytes_le 4 d"
    by (simp add: md5_def)
  then show ?thesis
    by (auto simp add: length_bytes_le dest: bytes_le_byte)
qed

lemma hexDigit_hex: "d < 16 \<Longrightarrow> hexDigit d \<in> set ''0123456789abcdef''"
proof -
  assume "d < 16"
  then have "d \<in> {0, 1, 2, 3, 4, 5, 6, 7, 8, 9, 10, 11, 12, 13, 14, 15}"
    by (simp add: insert_iff) presburger
  then show ?thesis by (auto simp add: hexDigit_def)
qed

lemma length_hex: "length (hex bytes) = 2 * length bytes"
  by (induction bytes) (simp_all add: hex_def)

lemma hex_digits:
  "\<forall>b \<in> set bytes. b < 256 \<Longrightarrow> c \<in> set (hex bytes) \<Longrightarrow> c \<in> set ''0123456789abcdef''"
proof -
  assume bytes: "\<forall>b \<in> set bytes. b < 256" and c: "c \<in> set (hex bytes)"
  then obtain b where b: "b \<in> set bytes" "c = hexDigit (b div 16) \<or> c = hexDigit (b mod 16)"
    by (auto simp add: hex_def)
  have "b div 16 < 16" "b mod 16 < 16" using bytes b(1) by auto
  then show ?thesis using b(2) hexDigit_hex by blast
qed

lemma generateSessionId_hex:
  assumes "preference \<noteq> []"
  shows "length (generateSessionId preference) = 8
         \<and> set (generateSessionId preference) \<subseteq> set ''0123456789abcdef''"
proof -
  have id: "generateSessionId preference = take 8 (hex (md5 (utf8 preference)))"
    using assms by (simp add: generateSessionId_def md5_hex_def)
  have len: "length (hex (md5 (utf8 preference))) = 32"
    using md5_shape[of "utf8 preference"] by (simp add: length_hex)
  have "set (take 8 (hex (md5 (utf8 preference)))) \<subseteq> set ''0123456789abcdef''"
  proof
    fix c assume "c \<in> set (take 8 (hex (md5 (utf8 preference))))"
    then have "c \<in> set (hex (md5 (utf8 preference)))" by (rule in_set_takeD)
    then show "c \<in> set ''0123456789abcdef''"
      using md5_shape[of "utf8 preference"] hex_digits by blast
  qed
  then show ?thesis unfolding id using len by simp
qed

text \<open>
  Claim C1, at the blank preference of three spaces: \<open>generateSessionId\<close> returns
  \<open>"default"\<close> for the empty string only. Three spaces trim to the empty string, and
  \<open>parseModelPreference\<close> treats them as the empty preference, but their identifier is the
  first eight digits of their MD5 digest, not \<open>"default"\<close>.
\<close>

theorem generateSessionId_blank:
  "generateSessionId [] = ''default''
   \<and> trim ''   '' = []
   \<and> raw (parseModelPreference ''   '') = []
   \<and> generateSessionId ''   '' = ''628631f0''"
  by (simp add: generateSessionId_def parseModelPreference_def trim_def isWhiteSpace_def
      md5_eval list_eval)

subsection \<open>Splitting and the parsed preference\<close>

lemma split_no_sep: "sep \<notin> set s \<Longrightarrow> split sep s = [s]"
  by (induction s) auto

lemma split_append:
  "sep \<notin> set a \<Longrightarrow> split sep (a @ sep # rest) = a # split sep rest"
  by (induction a) auto

lemma split_nonempty: "split sep s \<noteq> []"
  by (induction s) (auto split: list.splits)

lemma length_split: "length (split sep s) = Suc (count_list s sep)"
proof (induction s)
  case Nil
  then show ?case by simp
next
  case (Cons c cs)
  then show ?case
    using split_nonempty[of sep cs] by (cases "split sep cs") auto
qed

lemma trim_Nil: "trim [] = []"
  by (simp add: trim_def)

text \<open>
  Claim C3, as the code has it at concrete inputs: a string with two commas is none of
  the three shapes, and the result carries neither a provider nor a model (only
  \<open>raw\<close>); a blank string gives no model either, and a bare model name is trimmed.
\<close>

theorem parseModelPreference_not_whole_string:
  "ModelPreference.model (parseModelPreference ''a,b,c'') \<noteq> Some ''a,b,c''
   \<and> parseModelPreference ''a,b,c'' = \<lparr>ModelPreference.provider = None, ModelPreference.model = None, raw = ''a,b,c''\<rparr>
   \<and> ModelPreference.model (parseModelPreference ''   '') \<noteq> Some ''   ''
   \<and> ModelPreference.model (parseModelPreference '' gpt-4'') \<noteq> Some '' gpt-4''"
  by (simp add: parseModelPreference_def trim_def isWhiteSpace_def)

text \<open>
  Claim C3, amended. \<open>parseModelPreference\<close> is total (it has no raising branch) and:
  a blank string gives neither field and an empty \<open>raw\<close>; a string with exactly one
  comma gives the two sides, trimmed, as provider and model; a string with no comma
  whose trimmed form has exactly one slash gives the two sides of the slash; any other
  string with no comma gives its trimmed form as the model; a string with two or more
  commas gives neither a provider nor a model.
\<close>

theorem parseModelPreference_cases:
  "(trim p = [] \<longrightarrow>
      parseModelPreference p = \<lparr>ModelPreference.provider = None, ModelPreference.model = None, raw = []\<rparr>)
   \<and> (trim p \<noteq> [] \<and> p = a @ CHR '','' # b \<and> CHR '','' \<notin> set a \<and> CHR '','' \<notin> set b \<longrightarrow>
      parseModelPreference p = \<lparr>ModelPreference.provider = Some (trim a), ModelPreference.model = Some (trim b), raw = p\<rparr>)
   \<and> (trim p \<noteq> [] \<and> CHR '','' \<notin> set p \<and> trim p = c @ CHR ''/'' # d
        \<and> CHR ''/'' \<notin> set c \<and> CHR ''/'' \<notin> set d \<longrightarrow>
      parseModelPreference p = \<lparr>ModelPreference.provider = Some c, ModelPreference.model = Some d, raw = p\<rparr>)
   \<and> (trim p \<noteq> [] \<and> CHR '','' \<notin> set p \<and> count_list (trim p) CHR ''/'' \<noteq> 1 \<longrightarrow>
      parseModelPreference p = \<lparr>ModelPreference.provider = None, ModelPreference.model = Some (trim p), raw = p\<rparr>)
   \<and> (trim p \<noteq> [] \<and> 2 \<le> count_list p CHR '','' \<longrightarrow>
      parseModelPreference p = \<lparr>ModelPreference.provider = None, ModelPreference.model = None, raw = p\<rparr>)"
proof (intro conjI impI)
  assume "trim p = []"
  then show "parseModelPreference p = \<lparr>ModelPreference.provider = None, ModelPreference.model = None, raw = []\<rparr>"
    by (simp add: parseModelPreference_def)
next
  assume h: "trim p \<noteq> [] \<and> p = a @ CHR '','' # b \<and> CHR '','' \<notin> set a \<and> CHR '','' \<notin> set b"
  then have tp: "trim p \<noteq> []" and pe: "p = a @ CHR '','' # b"
    and na: "CHR '','' \<notin> set a" and nb: "CHR '','' \<notin> set b"
    by blast+
  have parts: "split CHR '','' p = [a, b]"
    unfolding pe using na nb by (simp add: split_append split_no_sep)
  have ne: "p \<noteq> []" using tp by (auto simp add: trim_Nil)
  show "parseModelPreference p = \<lparr>ModelPreference.provider = Some (trim a), ModelPreference.model = Some (trim b), raw = p\<rparr>"
    using tp ne by (simp add: parseModelPreference_def parts)
next
  assume h: "trim p \<noteq> [] \<and> CHR '','' \<notin> set p \<and> trim p = c @ CHR ''/'' # d
        \<and> CHR ''/'' \<notin> set c \<and> CHR ''/'' \<notin> set d"
  then have tp: "trim p \<noteq> []" and nc: "CHR '','' \<notin> set p"
    and te: "trim p = c @ CHR ''/'' # d"
    and sc: "CHR ''/'' \<notin> set c" and sd: "CHR ''/'' \<notin> set d"
    by blast+
  have parts: "split CHR '','' p = [p]" using nc by (simp add: split_no_sep)
  have sub: "split CHR ''/'' (trim p) = [c, d]"
    unfolding te using sc sd by (simp add: split_append split_no_sep)
  have ne: "p \<noteq> []" using tp by (auto simp add: trim_Nil)
  show "parseModelPreference p = \<lparr>ModelPreference.provider = Some c, ModelPreference.model = Some d, raw = p\<rparr>"
    using tp ne by (simp add: parseModelPreference_def parts sub)
next
  assume h: "trim p \<noteq> [] \<and> CHR '','' \<notin> set p \<and> count_list (trim p) CHR ''/'' \<noteq> 1"
  then have tp: "trim p \<noteq> []" and nc: "CHR '','' \<notin> set p"
    and cnt: "count_list (trim p) CHR ''/'' \<noteq> 1"
    by blast+
  have parts: "split CHR '','' p = [p]" using nc by (simp add: split_no_sep)
  have sub: "length (split CHR ''/'' (trim p)) \<noteq> 2"
    using cnt by (simp add: length_split)
  have ne: "p \<noteq> []" using tp by (auto simp add: trim_Nil)
  show "parseModelPreference p = \<lparr>ModelPreference.provider = None, ModelPreference.model = Some (trim p), raw = p\<rparr>"
    using tp ne sub by (simp add: parseModelPreference_def parts)
next
  assume h: "trim p \<noteq> [] \<and> 2 \<le> count_list p CHR '',''"
  then have tp: "trim p \<noteq> []" by blast
  have len: "length (split CHR '','' p) \<noteq> 2" "length (split CHR '','' p) \<noteq> 1"
    using h by (simp_all add: length_split)
  have ne: "p \<noteq> []" using tp by (auto simp add: trim_Nil)
  show "parseModelPreference p = \<lparr>ModelPreference.provider = None, ModelPreference.model = None, raw = p\<rparr>"
    using tp ne len by (simp add: parseModelPreference_def)
qed

theorem parseModelPreference_cases_witness:
  "parseModelPreference ''openrouter,gpt-4''
     = \<lparr>ModelPreference.provider = Some ''openrouter'', ModelPreference.model = Some ''gpt-4'', raw = ''openrouter,gpt-4''\<rparr>
   \<and> parseModelPreference ''openrouter/gpt-4''
     = \<lparr>ModelPreference.provider = Some ''openrouter'', ModelPreference.model = Some ''gpt-4'', raw = ''openrouter/gpt-4''\<rparr>
   \<and> parseModelPreference ''gpt-4''
     = \<lparr>ModelPreference.provider = None, ModelPreference.model = Some ''gpt-4'', raw = ''gpt-4''\<rparr>
   \<and> parseModelPreference ''a,b,c'' = \<lparr>ModelPreference.provider = None, ModelPreference.model = None, raw = ''a,b,c''\<rparr>
   \<and> parseModelPreference ''   '' = \<lparr>ModelPreference.provider = None, ModelPreference.model = None, raw = []\<rparr>"
proof -
  have "parseModelPreference ''openrouter,gpt-4''
     = \<lparr>ModelPreference.provider = Some ''openrouter'', ModelPreference.model = Some ''gpt-4'', raw = ''openrouter,gpt-4''\<rparr>"
    using parseModelPreference_cases[where p = "''openrouter,gpt-4''"
        and a = "''openrouter''" and b = "''gpt-4''"]
    by (simp add: trim_def isWhiteSpace_def)
  moreover have "parseModelPreference ''openrouter/gpt-4''
     = \<lparr>ModelPreference.provider = Some ''openrouter'', ModelPreference.model = Some ''gpt-4'', raw = ''openrouter/gpt-4''\<rparr>"
    using parseModelPreference_cases[where p = "''openrouter/gpt-4''"
        and c = "''openrouter''" and d = "''gpt-4''"]
    by (simp add: trim_def isWhiteSpace_def)
  moreover have "parseModelPreference ''gpt-4''
     = \<lparr>ModelPreference.provider = None, ModelPreference.model = Some ''gpt-4'', raw = ''gpt-4''\<rparr>"
    using parseModelPreference_cases[where p = "''gpt-4''"]
    by (simp add: trim_def isWhiteSpace_def)
  moreover have "parseModelPreference ''a,b,c''
     = \<lparr>ModelPreference.provider = None, ModelPreference.model = None, raw = ''a,b,c''\<rparr>"
    using parseModelPreference_cases[where p = "''a,b,c''"]
    by (simp add: trim_def isWhiteSpace_def)
  moreover have "parseModelPreference ''   '' = \<lparr>ModelPreference.provider = None, ModelPreference.model = None, raw = []\<rparr>"
    using parseModelPreference_cases[where p = "''   ''"]
    by (simp add: trim_def isWhiteSpace_def)
  ultimately show ?thesis by blast
qed

section \<open>Properties of the reference count\<close>

lemma getSessionReferenceCount_not_dir:
  "getSessionReferenceCount fs cfg = Inr c \<Longrightarrow> fs (referenceCountFile cfg) \<noteq> Some Dir"
  by (auto simp add: getSessionReferenceCount_def existsSync_def readFileSync_def)

lemma getSessionReferenceCount_written:
  "0 \<le> c \<Longrightarrow> c \<le> 2 ^ 53 \<Longrightarrow>
   getSessionReferenceCount (fs(referenceCountFile cfg \<mapsto> File (toString (Finite c)))) cfg
     = Inr (Finite c)"
  by (simp add: getSessionReferenceCount_def existsSync_def readFileSync_def
      parseInt_toString orZero_def truthy_def)

text \<open>The read that starts each of the three operations.\<close>

lemma count_read:
  "getSessionReferenceCount fs cfg = Inr c \<Longrightarrow>
   (if existsSync fs (referenceCountFile cfg)
    then (case readFileSync fs (referenceCountFile cfg) of
            Inl e \<Rightarrow> Inl e
          | Inr txt \<Rightarrow> Inr (orZero (parseInt txt)))
    else Inr (Finite 0)) = Inr c"
  by (simp add: getSessionReferenceCount_def split: if_splits)

text \<open>
  Writing the count succeeds when the file is a regular file already, or is missing in
  a directory that exists.
\<close>

lemma count_write:
  "fs (referenceCountFile cfg) \<noteq> Some Dir \<Longrightarrow>
   fs (referenceCountFile cfg) = None \<longrightarrow> fs (dirname (referenceCountFile cfg)) = Some Dir \<Longrightarrow>
   writeFileSync fs (referenceCountFile cfg) content
     = Inr (fs(referenceCountFile cfg \<mapsto> File content))"
  by (auto simp add: writeFileSync_def split: option.splits node.splits)

lemma increment_step:
  assumes "getSessionReferenceCount fs cfg = Inr (Finite c)" and "0 \<le> c" and "c + 1 \<le> 2 ^ 53"
    and "fs (referenceCountFile cfg) = None \<longrightarrow> fs (dirname (referenceCountFile cfg)) = Some Dir"
  shows "\<exists>fs'. incrementSessionReferenceCount fs cfg = Inr fs'
           \<and> getSessionReferenceCount fs' cfg = Inr (Finite (c + 1))
           \<and> fs' (referenceCountFile cfg) \<noteq> None"
proof -
  have nd: "fs (referenceCountFile cfg) \<noteq> Some Dir"
    using assms(1) by (rule getSessionReferenceCount_not_dir)
  have next_count: "numberValue (c + 1) = Finite (c + 1)"
    using assms(2,3) by (intro numberValue_exact) simp
  have "incrementSessionReferenceCount fs cfg
          = Inr (fs(referenceCountFile cfg \<mapsto> File (toString (Finite (c + 1)))))"
    unfolding incrementSessionReferenceCount_def count_read[OF assms(1)]
    by (simp add: next_count count_write[OF nd assms(4)])
  moreover have "getSessionReferenceCount
      (fs(referenceCountFile cfg \<mapsto> File (toString (Finite (c + 1))))) cfg = Inr (Finite (c + 1))"
    using assms(2,3) by (intro getSessionReferenceCount_written) simp_all
  ultimately show ?thesis by auto
qed

lemma decrement_step:
  assumes "getSessionReferenceCount fs cfg = Inr (Finite c)" and "0 \<le> c" and "c \<le> 2 ^ 53"
    and "fs (referenceCountFile cfg) = None \<longrightarrow> fs (dirname (referenceCountFile cfg)) = Some Dir"
  shows "\<exists>fs'. decrementSessionReferenceCount fs cfg = Inr fs'
           \<and> getSessionReferenceCount fs' cfg = Inr (Finite (max 0 (c - 1)))
           \<and> fs' (referenceCountFile cfg) \<noteq> None"
proof -
  have nd: "fs (referenceCountFile cfg) \<noteq> Some Dir"
    using assms(1) by (rule getSessionReferenceCount_not_dir)
  have next_count: "numberValue (c - 1) = Finite (c - 1)"
    using assms(2,3) by (intro numberValue_exact) simp
  have "decrementSessionReferenceCount fs cfg
          = Inr (fs(referenceCountFile cfg \<mapsto> File (toString (Finite (max 0 (c - 1))))))"
    unfolding decrementSessionReferenceCount_def count_read[OF assms(1)]
    by (simp add: next_count count_write[OF nd assms(4)])
  moreover have "getSessionReferenceCount
      (fs(referenceCountFile cfg \<mapsto> File (toString (Finite (max 0 (c - 1)))))) cfg
        = Inr (Finite (max 0 (c - 1)))"
    using assms(2,3) by (intro getSessionReferenceCount_written) simp_all
  ultimately show ?thesis by auto
qed

lemma increment_times:
  "getSessionReferenceCount fs cfg = Inr (Finite c) \<Longrightarrow> 0 \<le> c \<Longrightarrow> c + int n \<le> 2 ^ 53 \<Longrightarrow>
   fs (referenceCountFile cfg) = None \<longrightarrow> fs (dirname (referenceCountFile cfg)) = Some Dir \<Longrightarrow>
   \<exists>fs'. repeatedly n (\<lambda>fs. incrementSessionReferenceCount fs cfg) fs = Inr fs'
     \<and> getSessionReferenceCount fs' cfg = Inr (Finite (c + int n))
     \<and> (fs' (referenceCountFile cfg) = None \<longrightarrow> fs' (dirname (referenceCountFile cfg)) = Some Dir)"
proof (induction n arbitrary: fs c)
  case 0
  then show ?case by simp
next
  case (Suc n)
  have one: "c + 1 \<le> 2 ^ 53" using Suc.prems(3) by simp
  obtain fs1 where fs1: "incrementSessionReferenceCount fs cfg = Inr fs1"
      "getSessionReferenceCount fs1 cfg = Inr (Finite (c + 1))"
      "fs1 (referenceCountFile cfg) \<noteq> None"
    using increment_step[OF Suc.prems(1,2) one Suc.prems(4)] by blast
  have rest: "c + 1 + int n \<le> 2 ^ 53" using Suc.prems(3) by simp
  obtain fs2 where fs2: "repeatedly n (\<lambda>fs. incrementSessionReferenceCount fs cfg) fs1 = Inr fs2"
      "getSessionReferenceCount fs2 cfg = Inr (Finite (c + 1 + int n))"
      "fs2 (referenceCountFile cfg) = None \<longrightarrow> fs2 (dirname (referenceCountFile cfg)) = Some Dir"
    using Suc.IH[OF fs1(2) _ rest] Suc.prems(2) fs1(3) by auto
  show ?case using fs1(1) fs2 by (simp add: add.assoc add.commute)
qed

lemma decrement_times:
  "getSessionReferenceCount fs cfg = Inr (Finite c) \<Longrightarrow> 0 \<le> c \<Longrightarrow> c \<le> 2 ^ 53 \<Longrightarrow>
   fs (referenceCountFile cfg) = None \<longrightarrow> fs (dirname (referenceCountFile cfg)) = Some Dir \<Longrightarrow>
   \<exists>fs'. repeatedly n (\<lambda>fs. decrementSessionReferenceCount fs cfg) fs = Inr fs'
     \<and> getSessionReferenceCount fs' cfg = Inr (Finite (max 0 (c - int n)))"
proof (induction n arbitrary: fs c)
  case 0
  then show ?case by simp
next
  case (Suc n)
  obtain fs1 where fs1: "decrementSessionReferenceCount fs cfg = Inr fs1"
      "getSessionReferenceCount fs1 cfg = Inr (Finite (max 0 (c - 1)))"
      "fs1 (referenceCountFile cfg) \<noteq> None"
    using decrement_step[OF Suc.prems] by blast
  have small: "max 0 (c - 1) \<le> 2 ^ 53" using Suc.prems(3) by simp
  obtain fs2 where fs2: "repeatedly n (\<lambda>fs. decrementSessionReferenceCount fs cfg) fs1 = Inr fs2"
      "getSessionReferenceCount fs2 cfg = Inr (Finite (max 0 (max 0 (c - 1) - int n)))"
    using Suc.IH[OF fs1(2) _ small] fs1(3) by auto
  have "max 0 (max 0 (c - 1) - int n) = max 0 (c - int (Suc n))" by simp
  then show ?case using fs1(1) fs2 by simp
qed

text \<open>
  Claim C6, as the code has it for a large count. The count is a double: with
  \<open>2^53 = 9007199254740992\<close> in the file, \<open>incrementSessionReferenceCount\<close> writes the
  same number again (\<open>2^53 + 1\<close> is rounded to \<open>2^53\<close>), the following
  \<open>decrementSessionReferenceCount\<close> writes \<open>2^53 - 1\<close>, and \<open>getSessionReferenceCount\<close>
  does not read the original value.
\<close>

theorem reference_count_increment_lost:
  "getSessionReferenceCount
      (demoDirectory(referenceCountFile demoSession \<mapsto> File ''9007199254740992'')) demoSession
     = Inr (Finite 9007199254740992)
   \<and> incrementSessionReferenceCount
      (demoDirectory(referenceCountFile demoSession \<mapsto> File ''9007199254740992'')) demoSession
     = Inr (demoDirectory(referenceCountFile demoSession \<mapsto> File ''9007199254740992''))
   \<and> decrementSessionReferenceCount
      (demoDirectory(referenceCountFile demoSession \<mapsto> File ''9007199254740992'')) demoSession
     = Inr (demoDirectory(referenceCountFile demoSession \<mapsto> File ''9007199254740991''))
   \<and> getSessionReferenceCount
      (demoDirectory(referenceCountFile demoSession \<mapsto> File ''9007199254740991'')) demoSession
     = Inr (Finite 9007199254740991)"
proof -
  have rd: "orZero (parseInt ''9007199254740992'') = Finite 9007199254740992"
    by (simp add: number_eval)
  have rd': "orZero (parseInt ''9007199254740991'') = Finite 9007199254740991"
    by (simp add: number_eval)
  have up: "toString (numberValue 9007199254740993) = ''9007199254740992''"
    unfolding rounded_at_2_53
    by (simp add: toString_def magnitudeToString_def decimal.simps digitChar_def)
  have down: "toString (mathMax (Finite 0) (numberValue 9007199254740991))
                = ''9007199254740991''"
    by (simp add: numberValue_exact toString_def magnitudeToString_def decimal.simps
        digitChar_def)
  show ?thesis
    by (simp add: getSessionReferenceCount_def incrementSessionReferenceCount_def
        decrementSessionReferenceCount_def existsSync_def readFileSync_def writeFileSync_def
        rd rd' up down)
qed

text \<open>
  Claim C6, amended. For a session whose directory exists, whenever the reference count
  can be read and is not negative (the file is missing, or holds what these operations
  write), and \<open>n\<close> increments do not lead beyond \<open>2^53\<close>: \<open>n\<close> calls of
  \<open>incrementSessionReferenceCount\<close> followed by \<open>n\<close> calls of
  \<open>decrementSessionReferenceCount\<close> all return, and \<open>getSessionReferenceCount\<close> reads
  the original value again; one decrement of a count of 0 leaves it at 0.
\<close>

theorem reference_count_round_trip:
  assumes "getSessionReferenceCount fs cfg = Inr (Finite c)" and "0 \<le> c"
    and "c + int n \<le> 2 ^ 53"
    and "fs (dirname (referenceCountFile cfg)) = Some Dir"
  shows "(\<exists>fs1 fs2.
            repeatedly n (\<lambda>fs. incrementSessionReferenceCount fs cfg) fs = Inr fs1
          \<and> getSessionReferenceCount fs1 cfg = Inr (Finite (c + int n))
          \<and> repeatedly n (\<lambda>fs. decrementSessionReferenceCount fs cfg) fs1 = Inr fs2
          \<and> getSessionReferenceCount fs2 cfg = Inr (Finite c))
       \<and> (\<exists>fs'. decrementSessionReferenceCount fs cfg = Inr fs'
          \<and> getSessionReferenceCount fs' cfg = Inr (Finite (if c = 0 then 0 else c - 1)))"
proof
  have dir: "fs (referenceCountFile cfg) = None \<longrightarrow> fs (dirname (referenceCountFile cfg)) = Some Dir"
    using assms(4) by simp
  obtain fs1 where fs1: "repeatedly n (\<lambda>fs. incrementSessionReferenceCount fs cfg) fs = Inr fs1"
      "getSessionReferenceCount fs1 cfg = Inr (Finite (c + int n))"
      "fs1 (referenceCountFile cfg) = None \<longrightarrow> fs1 (dirname (referenceCountFile cfg)) = Some Dir"
    using increment_times[where n = n, OF assms(1,2,3) dir] by auto
  have pos: "0 \<le> c + int n" using assms(2) by simp
  obtain fs2 where fs2: "repeatedly n (\<lambda>fs. decrementSessionReferenceCount fs cfg) fs1 = Inr fs2"
      "getSessionReferenceCount fs2 cfg = Inr (Finite (max 0 (c + int n - int n)))"
    using decrement_times[where n = n, OF fs1(2) pos assms(3) fs1(3)] by auto
  have "max 0 (c + int n - int n) = c" using assms(2) by simp
  then show "\<exists>fs1 fs2.
            repeatedly n (\<lambda>fs. incrementSessionReferenceCount fs cfg) fs = Inr fs1
          \<and> getSessionReferenceCount fs1 cfg = Inr (Finite (c + int n))
          \<and> repeatedly n (\<lambda>fs. decrementSessionReferenceCount fs cfg) fs1 = Inr fs2
          \<and> getSessionReferenceCount fs2 cfg = Inr (Finite c)"
    using fs1 fs2 by auto
next
  have dir: "fs (referenceCountFile cfg) = None \<longrightarrow> fs (dirname (referenceCountFile cfg)) = Some Dir"
    using assms(4) by simp
  have small: "c \<le> 2 ^ 53" using assms(3) by simp
  have "max 0 (c - 1) = (if c = 0 then 0 else c - 1)" using assms(2) by auto
  then show "\<exists>fs'. decrementSessionReferenceCount fs cfg = Inr fs'
          \<and> getSessionReferenceCount fs' cfg = Inr (Finite (if c = 0 then 0 else c - 1))"
    using decrement_step[OF assms(1,2) small dir] by auto
qed

lemma demoDirectory_dir:
  "demoDirectory (dirname (referenceCountFile demoSession)) = Some Dir
   \<and> demoDirectory (referenceCountFile demoSession) = None
   \<and> demoDirectory (dirname (pidFile demoSession)) = Some Dir
   \<and> demoDirectory (pidFile demoSession) = None"
  by (simp add: demoDirectory_def demoSession_def dirname_def)

theorem reference_count_round_trip_witness:
  "getSessionReferenceCount demoDirectory demoSession = Inr (Finite 0)
   \<and> (\<exists>fs1 fs2.
          repeatedly 3 (\<lambda>fs. incrementSessionReferenceCount fs demoSession) demoDirectory = Inr fs1
        \<and> getSessionReferenceCount fs1 demoSession = Inr (Finite 3)
        \<and> repeatedly 3 (\<lambda>fs. decrementSessionReferenceCount fs demoSession) fs1 = Inr fs2
        \<and> getSessionReferenceCount fs2 demoSession = Inr (Finite 0))
   \<and> (\<exists>fs'. decrementSessionReferenceCount demoDirectory demoSession = Inr fs'
        \<and> getSessionReferenceCount fs' demoSession = Inr (Finite 0))"
proof -
  have g: "getSessionReferenceCount demoDirectory demoSession = Inr (Finite 0)"
    by (simp add: getSessionReferenceCount_def existsSync_def demoDirectory_dir)
  have d: "demoDirectory (dirname (referenceCountFile demoSession)) = Some Dir"
    by (simp add: demoDirectory_dir)
  show ?thesis
    using g reference_count_round_trip[OF g _ _ d, of 3] by simp
qed

section \<open>Liveness and stale pid files\<close>

text \<open>The demo session has the identifier of its preference.\<close>

lemma demoSession_id: "generateSessionId (modelPreference demoSession) = SessionConfig.sessionId demoSession"
  by (simp add: demoSession_def generateSessionId_def md5_eval list_eval)

lemma saveSessionPid_Inr:
  "saveSessionPid fs cfg pid = Inr fs' \<Longrightarrow> fs' = fs(pidFile cfg \<mapsto> File (toString pid))"
  by (auto simp add: saveSessionPid_def writeFileSync_def split: option.splits node.splits)

lemma cleanupSessionPid_file:
  "fs (pidFile cfg) = Some (File content) \<Longrightarrow> cleanupSessionPid fs cfg = fs(pidFile cfg := None)"
  by (simp add: cleanupSessionPid_def existsSync_def unlinkSync_def)

text \<open>
  What \<open>isSessionRunning\<close> does with a readable pid file, for every liveness query:
  when the query raises, the pid file is removed; when it answers, nothing changes.
\<close>

lemma isSessionRunning_by_query:
  assumes "files w (pidFile cfg) = Some (File content)"
  shows "isSessionRunning running w cfg =
     (case running (procs w) (parseInt content) of
        Inl e \<Rightarrow> (False, w\<lparr>files := (files w)(pidFile cfg := None)\<rparr>)
      | Inr alive \<Rightarrow> (alive, w))"
proof -
  have cl: "cleanupSessionPid (files w) cfg = (files w)(pidFile cfg := None)"
    using assms by (rule cleanupSessionPid_file)
  show ?thesis
    using assms
    by (simp add: isSessionRunning_def existsSync_def readFileSync_def cl split: sum.splits)
qed

lemma kill_absent:
  "ps n = None \<Longrightarrow> kill ps (Finite n) sig = Inl ESRCH \<or> kill ps (Finite n) sig = Inl ERR_INVALID_ARG_TYPE"
  by (simp add: kill_def)

lemma isProcessRunning_dead: "ps n = None \<Longrightarrow> \<exists>e. isProcessRunning ps (Finite n) = Inl e"
  using kill_absent[of ps n SIG0] by (auto simp add: isProcessRunning_def)

lemma isProcessRunning_alive:
  "ps n = Some p \<Longrightarrow> isInt32 (Finite n) \<Longrightarrow> isProcessRunning ps (Finite n) = Inr True"
  by (simp add: isProcessRunning_def kill_def)

lemma isProcessRunning_NaN: "isProcessRunning ps NaN = Inl ERR_INVALID_ARG_TYPE"
  by (simp add: isProcessRunning_def kill_def)

text \<open>
  A pid file that does not parse is removed, and a pid file whose process is alive is
  left alone.
\<close>

lemma isSessionRunning_unparsable:
  "files w (pidFile cfg) = Some (File content) \<Longrightarrow> parseInt content = NaN \<Longrightarrow>
   isSessionRunning isProcessRunning w cfg = (False, w\<lparr>files := (files w)(pidFile cfg := None)\<rparr>)"
  by (simp add: isSessionRunning_by_query isProcessRunning_NaN)

lemma isSessionRunning_alive:
  "files w (pidFile cfg) = Some (File content) \<Longrightarrow> parseInt content = Finite n \<Longrightarrow>
   procs w n = Some p \<Longrightarrow> isInt32 (Finite n) \<Longrightarrow>
   isSessionRunning isProcessRunning w cfg = (True, w)"
  by (simp add: isSessionRunning_by_query isProcessRunning_alive)

text \<open>
  Claim C7. After \<open>saveSessionPid\<close> has written a PID, once no process has that PID,
  \<open>isSessionRunning\<close> returns \<open>false\<close> and has removed the pid file (and nothing else):
  the liveness query raises for the dead process and the \<open>catch\<close> calls
  \<open>cleanupSessionPid\<close>.
\<close>

theorem isSessionRunning_removes_stale_pid_file:
  assumes "saveSessionPid fs cfg (Finite pid) = Inr fs'" and "0 \<le> pid" and "pid \<le> 2 ^ 53"
    and "ps pid = None"
  shows "readFileSync fs' (pidFile cfg) = Inr (toString (Finite pid))
       \<and> isSessionRunning isProcessRunning \<lparr>files = fs', procs = ps, sessionDirs = ds\<rparr> cfg
           = (False, \<lparr>files = fs'(pidFile cfg := None), procs = ps, sessionDirs = ds\<rparr>)
       \<and> \<not> existsSync (fs'(pidFile cfg := None)) (pidFile cfg)"
proof -
  have fs': "fs' = fs(pidFile cfg \<mapsto> File (toString (Finite pid)))"
    using assms(1) by (rule saveSessionPid_Inr)
  have written: "fs' (pidFile cfg) = Some (File (toString (Finite pid)))"
    by (simp add: fs')
  have parsed: "parseInt (toString (Finite pid)) = Finite pid"
    using assms(2,3) by (rule parseInt_toString)
  obtain e where raised: "isProcessRunning ps (Finite pid) = Inl e"
    using isProcessRunning_dead[of ps pid] assms(4) by blast
  have "isSessionRunning isProcessRunning \<lparr>files = fs', procs = ps, sessionDirs = ds\<rparr> cfg
           = (False, \<lparr>files = fs'(pidFile cfg := None), procs = ps, sessionDirs = ds\<rparr>)"
    using written by (simp add: isSessionRunning_by_query parsed raised)
  then show ?thesis
    using written by (simp add: readFileSync_def existsSync_def)
qed

theorem isSessionRunning_removes_stale_pid_file_witness:
  "saveSessionPid demoDirectory demoSession (Finite 4242)
     = Inr (demoDirectory(pidFile demoSession \<mapsto> File ''4242''))
   \<and> isSessionRunning isProcessRunning
        \<lparr>files = demoDirectory(pidFile demoSession \<mapsto> File ''4242''), procs = Map.empty,
          sessionDirs = []\<rparr> demoSession
     = (False, \<lparr>files = demoDirectory, procs = Map.empty, sessionDirs = []\<rparr>)
   \<and> \<not> existsSync demoDirectory (pidFile demoSession)"
proof -
  have saved: "saveSessionPid demoDirectory demoSession (Finite 4242)
     = Inr (demoDirectory(pidFile demoSession \<mapsto> File ''4242''))"
    by (simp add: saveSessionPid_def writeFileSync_def demoDirectory_dir toString_def
        magnitudeToString_def decimal.simps digitChar_def)
  have restored: "demoDirectory(pidFile demoSession := None) = demoDirectory"
    by (simp add: demoDirectory_dir fun_upd_idem)
  show ?thesis
    using saved
      isSessionRunning_removes_stale_pid_file[OF saved, of Map.empty "[]"]
    by (simp add: restored existsSync_def demoDirectory_dir)
qed

section \<open>Properties of stopping a session\<close>

lemma getSessionPid_Some:
  "getSessionPid fs cfg = Some pid \<Longrightarrow>
   \<exists>content. fs (pidFile cfg) = Some (File content) \<and> parseInt content = pid"
  by (auto simp add: getSessionPid_def existsSync_def readFileSync_def Let_def
      split: if_splits option.splits node.splits)

lemma getSessionPid_removed: "getSessionPid (fs(pidFile cfg := None)) cfg = None"
  by (simp add: getSessionPid_def existsSync_def)

lemma removeReferenceCountFile_eq:
  "removeReferenceCountFile fs cfg =
     (case fs (referenceCountFile cfg) of
        Some (File content) \<Rightarrow> fs(referenceCountFile cfg := None)
      | _ \<Rightarrow> fs)"
  by (simp add: removeReferenceCountFile_def existsSync_def unlinkSync_def
      split: option.splits node.splits)

lemma removeReferenceCountFile_no_file:
  "removeReferenceCountFile fs cfg (referenceCountFile cfg) \<noteq> Some (File content)"
  by (simp add: removeReferenceCountFile_eq split: option.splits node.splits)

lemma removeReferenceCountFile_keeps_absent:
  "fs other = None \<Longrightarrow> removeReferenceCountFile fs cfg other = None"
  by (simp add: removeReferenceCountFile_eq split: option.splits node.splits)

text \<open>
  \<open>ccr stop\<close> with a PID in the pid file, by what the liveness query and the signal do.
\<close>

lemma cli_stop_cases:
  assumes pid: "getSessionPid (files w) cfg = Some pid" "truthy pid"
  shows "cli_stop running w cfg =
     (case running (procs w) pid of
        Inl e' \<Rightarrow> (IsNotRunning, w\<lparr>files := (files w)(pidFile cfg := None)\<rparr>)
      | Inr alive \<Rightarrow>
          (case kill (procs w) pid SIGTERM of
             Inl e \<Rightarrow> (FailedToStop, w\<lparr>files := (files w)(pidFile cfg := None)\<rparr>)
           | Inr ps \<Rightarrow>
               (SuccessfullyStopped,
                w\<lparr>files := removeReferenceCountFile ((files w)(pidFile cfg := None)) cfg,
                  procs := ps\<rparr>)))"
proof -
  obtain content where rd: "files w (pidFile cfg) = Some (File content)"
      and parsed: "parseInt content = pid"
    using getSessionPid_Some[OF pid(1)] by blast
  have cl: "cleanupSessionPid (files w) cfg = (files w)(pidFile cfg := None)"
    using rd by (rule cleanupSessionPid_file)
  show ?thesis
  proof (cases "running (procs w) pid")
    case (Inl e')
    then show ?thesis
      unfolding cli_stop_def isSessionRunning_by_query[OF rd] parsed
      by (simp add: getSessionPid_removed)
  next
    case (Inr alive)
    then show ?thesis
      unfolding cli_stop_def isSessionRunning_by_query[OF rd] parsed
      using pid by (simp add: cl split: sum.splits)
  qed
qed

text \<open>The endpoint, for a session it has found among the active ones.\<close>

lemma stop_endpoint_cases:
  assumes listed: "getAllActiveSessions running w0 = (sessions, w1)"
    and found: "find (\<lambda>s. SessionConfig.sessionId s = wanted) sessions = Some session"
    and pid: "getSessionPid (files w1) session = Some pid" "truthy pid"
  shows "stop_endpoint running w0 exited wanted =
     (let w = w1\<lparr>procs := (\<lambda>pid. if pid \<in> exited then None else procs w1 pid)\<rparr> in
      case kill (procs w) pid SIGTERM of
        Inl EPERM \<Rightarrow> (\<lparr>statusCode = 403, success = None, message = PermissionDenied\<rparr>, w)
      | Inl ESRCH \<Rightarrow>
          (\<lparr>statusCode = 200, success = Some True, message = WasAlreadyStopped\<rparr>,
           w\<lparr>files := (files w1)(pidFile session := None)\<rparr>)
      | Inl e \<Rightarrow> (\<lparr>statusCode = 500, success = None, message = FailedToStopSession\<rparr>, w)
      | Inr ps1 \<Rightarrow>
          (\<lparr>statusCode = 200, success = Some True, message = StoppedSuccessfully\<rparr>,
           w\<lparr>files := removeReferenceCountFile ((files w1)(pidFile session := None)) session,
             procs := (case kill ps1 pid SIG0 of
                         Inl e \<Rightarrow> ps1
                       | Inr ps \<Rightarrow> (case kill ps pid SIGKILL of Inl e \<Rightarrow> ps | Inr ps' \<Rightarrow> ps'))\<rparr>))"
proof -
  obtain content where rd: "files w1 (pidFile session) = Some (File content)"
    using getSessionPid_Some[OF pid(1)] by blast
  have cl: "cleanupSessionPid (files w1) session = (files w1)(pidFile session := None)"
    using rd by (rule cleanupSessionPid_file)
  show ?thesis
    unfolding stop_endpoint_def listed
    using found pid
    by (simp add: Let_def cl split: sum.splits errno.splits)
qed

lemma kill_errors:
  "kill ps pid sig = Inl e \<Longrightarrow> e = ESRCH \<or> e = EPERM \<or> e = ERR_INVALID_ARG_TYPE"
  by (auto simp add: kill_def split: number.splits if_splits option.splits signal.splits)


text \<open>
  After a delivered termination signal the probe and the forced kill leave no process
  with that PID.
\<close>

lemma escalation_ends_process:
  assumes "kill ps (Finite n) SIGTERM = Inr ps1"
  shows "(case kill ps1 (Finite n) SIG0 of
            Inl e \<Rightarrow> ps1
          | Inr ps2 \<Rightarrow> (case kill ps2 (Finite n) SIGKILL of Inl e \<Rightarrow> ps2 | Inr ps3 \<Rightarrow> ps3)) n
         = None"
  using assms
  by (auto simp add: kill_def split: if_splits option.splits)

lemma kill_delivered_finite: "kill ps pid sig = Inr ps' \<Longrightarrow> \<exists>n. pid = Finite n"
  by (auto simp add: kill_def split: number.splits)

text \<open>
  Claim C8, as the code has it at a concrete session with the PID 4242 in the pid file
  and a reference-count file. With no process 4242, \<open>ccr stop\<close> removes the pid file and
  leaves the reference-count file where it is, and the endpoint answers 404, not
  success. When process 4242 exits between the listing and the signal, the endpoint
  answers 200 ("was already stopped") and the reference-count file is still there. So
  the reference-count file is not deleted after a signal that failed.
\<close>

theorem stop_keeps_reference_count_file:
  "\<not> existsSync (files (snd (cli_stop isProcessRunning (demoWorld None) demoSession)))
        (pidFile demoSession)
   \<and> existsSync (files (snd (cli_stop isProcessRunning (demoWorld None) demoSession)))
        (referenceCountFile demoSession)
   \<and> fst (stop_endpoint isProcessRunning (demoWorld None) {} ''fc92274d'')
       = \<lparr>statusCode = 404, success = None, message = SessionNotFound\<rparr>
   \<and> fst (stop_endpoint isProcessRunning
            (demoWorld (Some \<lparr>permitted = True, exitsOnTerm = True\<rparr>)) {4242} ''fc92274d'')
       = \<lparr>statusCode = 200, success = Some True, message = WasAlreadyStopped\<rparr>
   \<and> existsSync (files (snd (stop_endpoint isProcessRunning
            (demoWorld (Some \<lparr>permitted = True, exitsOnTerm = True\<rparr>)) {4242} ''fc92274d'')))
        (referenceCountFile demoSession)"
  by (simp add: cli_stop_def stop_endpoint_def getAllActiveSessions_def demoWorld_def
      demoSaved_def demoSession_def demoDirectory_def isSessionRunning_def existsSync_def
      readFileSync_def unlinkSync_def cleanupSessionPid_def isProcessRunning_def
      number_eval isNaN_def isInt32_def getSessionPid_def kill_def
      SESSIONS_DIR_def HOME_DIR_def join_def)

text \<open>
  Claim C8, amended. With a PID in the pid file, and for every behaviour of the
  liveness query: \<open>ccr stop\<close> never raises and always removes the pid file. When the
  liveness query raises or the signal fails (the process no longer exists, or refuses
  the signal), it prints that the session is not running or that stopping failed ("may
  have already been stopped"), and removes nothing but the pid file: the
  reference-count file stays. After a delivered signal it reports success and the
  reference-count file is gone too. The endpoint, for a session it lists as active,
  answers 200 "was already stopped" when the process has exited in the meantime, and
  removes the pid file only; after a delivered signal (escalated to a forced kill if the
  process survives) it answers 200, the process is gone, and the pid file and the
  reference-count file are gone; when the signal is refused it answers 403, and for any
  other error 500, leaving the files and the processes as they are. A session that
  is not among the active ones gets 404.
\<close>

theorem stop_cleanup_by_outcome:
  "(getSessionPid (files w) cfg = Some pid \<and> truthy pid
      \<and> referenceCountFile cfg \<noteq> pidFile cfg \<longrightarrow>
      \<not> existsSync (files (snd (cli_stop running w cfg))) (pidFile cfg)
      \<and> ((\<exists>e. running (procs w) pid = Inl e) \<or> (\<exists>e. kill (procs w) pid SIGTERM = Inl e) \<longrightarrow>
           (fst (cli_stop running w cfg) = IsNotRunning
              \<or> fst (cli_stop running w cfg) = FailedToStop)
         \<and> files (snd (cli_stop running w cfg)) = (files w)(pidFile cfg := None)
         \<and> files (snd (cli_stop running w cfg)) (referenceCountFile cfg)
             = files w (referenceCountFile cfg)
         \<and> procs (snd (cli_stop running w cfg)) = procs w)
      \<and> ((\<exists>alive. running (procs w) pid = Inr alive) \<and> (\<exists>ps. kill (procs w) pid SIGTERM = Inr ps) \<longrightarrow>
             fst (cli_stop running w cfg) = SuccessfullyStopped
           \<and> kill (procs w) pid SIGTERM = Inr (procs (snd (cli_stop running w cfg)))
           \<and> (\<forall>t. files (snd (cli_stop running w cfg)) (referenceCountFile cfg) \<noteq> Some (File t))))
   \<and> (getAllActiveSessions running w0 = (sessions, w1)
      \<and> find (\<lambda>s. SessionConfig.sessionId s = wanted) sessions = Some session
      \<and> getSessionPid (files w1) session = Some pid' \<and> truthy pid'
      \<and> referenceCountFile session \<noteq> pidFile session \<longrightarrow>
      (kill (\<lambda>p. if p \<in> exited then None else procs w1 p) pid' SIGTERM = Inl ESRCH \<longrightarrow>
         fst (stop_endpoint running w0 exited wanted)
           = \<lparr>statusCode = 200, success = Some True, message = WasAlreadyStopped\<rparr>
       \<and> files (snd (stop_endpoint running w0 exited wanted)) = (files w1)(pidFile session := None)
       \<and> files (snd (stop_endpoint running w0 exited wanted)) (referenceCountFile session)
           = files w1 (referenceCountFile session))
      \<and> ((\<exists>ps1. kill (\<lambda>p. if p \<in> exited then None else procs w1 p) pid' SIGTERM = Inr ps1) \<longrightarrow>
           fst (stop_endpoint running w0 exited wanted)
             = \<lparr>statusCode = 200, success = Some True, message = StoppedSuccessfully\<rparr>
         \<and> (\<forall>n. pid' = Finite n \<longrightarrow> procs (snd (stop_endpoint running w0 exited wanted)) n = None)
         \<and> \<not> existsSync (files (snd (stop_endpoint running w0 exited wanted))) (pidFile session)
         \<and> (\<forall>t. files (snd (stop_endpoint running w0 exited wanted)) (referenceCountFile session)
                  \<noteq> Some (File t)))
      \<and> (kill (\<lambda>p. if p \<in> exited then None else procs w1 p) pid' SIGTERM = Inl EPERM \<longrightarrow>
           fst (stop_endpoint running w0 exited wanted)
             = \<lparr>statusCode = 403, success = None, message = PermissionDenied\<rparr>
         \<and> files (snd (stop_endpoint running w0 exited wanted)) = files w1
         \<and> procs (snd (stop_endpoint running w0 exited wanted))
             = (\<lambda>p. if p \<in> exited then None else procs w1 p))
      \<and> (kill (\<lambda>p. if p \<in> exited then None else procs w1 p) pid' SIGTERM
            = Inl ERR_INVALID_ARG_TYPE \<longrightarrow>
           fst (stop_endpoint running w0 exited wanted)
             = \<lparr>statusCode = 500, success = None, message = FailedToStopSession\<rparr>
         \<and> files (snd (stop_endpoint running w0 exited wanted)) = files w1))
   \<and> (getAllActiveSessions running w0 = (sessions, w1)
      \<and> find (\<lambda>s. SessionConfig.sessionId s = wanted) sessions = None \<longrightarrow>
      fst (stop_endpoint running w0 exited wanted)
        = \<lparr>statusCode = 404, success = None, message = SessionNotFound\<rparr>
      \<and> files (snd (stop_endpoint running w0 exited wanted)) = files w1)"
  (is "(?H1 \<longrightarrow> ?A \<and> ?B \<and> ?C) \<and> (?H2 \<longrightarrow> ?D \<and> ?E \<and> ?F \<and> ?G) \<and> (?H3 \<longrightarrow> ?I)")
proof -
  have cli: "?H1 \<longrightarrow> ?A \<and> ?B \<and> ?C"
  proof (rule impI)
    assume a: ?H1
    then have a1: "getSessionPid (files w) cfg = Some pid" and a2: "truthy pid"
      and a3: "referenceCountFile cfg \<noteq> pidFile cfg"
      by blast+
    note c = cli_stop_cases[OF a1 a2, of running]
    have A: ?A
      unfolding c
      by (auto simp add: existsSync_def removeReferenceCountFile_keeps_absent split: sum.splits)
    have B: ?B
      using a3 unfolding c by (auto split: sum.splits)
    have C: ?C
      unfolding c by (auto simp add: removeReferenceCountFile_no_file)
    show "?A \<and> ?B \<and> ?C" by (rule conjI[OF A conjI[OF B C]])
  qed
  have endpoint: "?H2 \<longrightarrow> ?D \<and> ?E \<and> ?F \<and> ?G"
  proof (rule impI)
    assume a: ?H2
    have a1: "getAllActiveSessions running w0 = (sessions, w1)"
      and a2: "find (\<lambda>s. SessionConfig.sessionId s = wanted) sessions = Some session"
      and a3: "getSessionPid (files w1) session = Some pid'" and a4: "truthy pid'"
      and a5: "referenceCountFile session \<noteq> pidFile session"
      using a by blast+
    define ps where "ps = (\<lambda>p. if p \<in> exited then None else procs w1 p)"
    have c: "stop_endpoint running w0 exited wanted =
       (case kill ps pid' SIGTERM of
          Inl EPERM \<Rightarrow>
            (\<lparr>statusCode = 403, success = None, message = PermissionDenied\<rparr>, w1\<lparr>procs := ps\<rparr>)
        | Inl ESRCH \<Rightarrow>
            (\<lparr>statusCode = 200, success = Some True, message = WasAlreadyStopped\<rparr>,
             w1\<lparr>procs := ps, files := (files w1)(pidFile session := None)\<rparr>)
        | Inl e \<Rightarrow>
            (\<lparr>statusCode = 500, success = None, message = FailedToStopSession\<rparr>,
             w1\<lparr>procs := ps\<rparr>)
        | Inr ps1 \<Rightarrow>
            (\<lparr>statusCode = 200, success = Some True, message = StoppedSuccessfully\<rparr>,
             w1\<lparr>procs := ps,
                files := removeReferenceCountFile ((files w1)(pidFile session := None)) session,
                procs := (case kill ps1 pid' SIG0 of
                           Inl e \<Rightarrow> ps1
                         | Inr ps2 \<Rightarrow>
                             (case kill ps2 pid' SIGKILL of Inl e \<Rightarrow> ps2 | Inr ps3 \<Rightarrow> ps3))\<rparr>))"
      unfolding stop_endpoint_cases[OF a1 a2 a3 a4] ps_def
      by (simp add: Let_def split: sum.splits errno.splits)
    have D: ?D
      using a5 unfolding c ps_def[symmetric] by simp
    have E: ?E
    proof (rule impI)
      assume "\<exists>ps1. kill (\<lambda>p. if p \<in> exited then None else procs w1 p) pid' SIGTERM = Inr ps1"
      then obtain ps1 where k: "kill ps pid' SIGTERM = Inr ps1" by (auto simp add: ps_def)
      define final where "final =
          (case kill ps1 pid' SIG0 of
              Inl e \<Rightarrow> ps1
            | Inr ps2 \<Rightarrow> (case kill ps2 pid' SIGKILL of Inl e \<Rightarrow> ps2 | Inr ps3 \<Rightarrow> ps3))"
      have gone: "\<forall>n. pid' = Finite n \<longrightarrow> final n = None"
      proof (intro allI impI)
        fix n assume eq: "pid' = Finite n"
        show "final n = None"
          unfolding final_def eq by (rule escalation_ends_process[OF k[unfolded eq]])
      qed
      have r: "stop_endpoint running w0 exited wanted =
            (\<lparr>statusCode = 200, success = Some True, message = StoppedSuccessfully\<rparr>,
             w1\<lparr>procs := ps,
                files := removeReferenceCountFile ((files w1)(pidFile session := None)) session,
                procs := final\<rparr>)"
        unfolding c k final_def by simp
      show "fst (stop_endpoint running w0 exited wanted)
               = \<lparr>statusCode = 200, success = Some True, message = StoppedSuccessfully\<rparr>
           \<and> (\<forall>n. pid' = Finite n \<longrightarrow> procs (snd (stop_endpoint running w0 exited wanted)) n = None)
           \<and> \<not> existsSync (files (snd (stop_endpoint running w0 exited wanted))) (pidFile session)
           \<and> (\<forall>t. files (snd (stop_endpoint running w0 exited wanted)) (referenceCountFile session)
                    \<noteq> Some (File t))"
        unfolding r using gone
        by (simp add: existsSync_def removeReferenceCountFile_keeps_absent
            removeReferenceCountFile_no_file)
    qed
    have F: ?F
      unfolding c ps_def[symmetric] by simp
    have G: ?G
      unfolding c ps_def[symmetric] by simp
    show "?D \<and> ?E \<and> ?F \<and> ?G" by (rule conjI[OF D conjI[OF E conjI[OF F G]]])
  qed
  have unknown: "?H3 \<longrightarrow> ?I"
  proof (rule impI)
    assume a: ?H3
    then have l: "getAllActiveSessions running w0 = (sessions, w1)"
      and n: "find (\<lambda>s. SessionConfig.sessionId s = wanted) sessions = None"
      by blast+
    show ?I
      unfolding stop_endpoint_def l using n by (simp add: Let_def)
  qed
  show ?thesis by (rule conjI[OF cli conjI[OF endpoint unknown]])
qed

lemma demoWorld_pid:
  "getSessionPid (files (demoWorld worker)) demoSession = Some (Finite 4242)
   \<and> truthy (Finite 4242)
   \<and> referenceCountFile demoSession \<noteq> pidFile demoSession"
  by (simp add: getSessionPid_def demoWorld_def demoSession_def existsSync_def
      readFileSync_def number_eval isNaN_def)

lemma demoWorld_listed:
  "getAllActiveSessions isProcessRunning (demoWorld (Some p)) = ([demoSession], demoWorld (Some p))"
  by (simp add: getAllActiveSessions_def demoWorld_def demoSaved_def demoSession_def
      isSessionRunning_def existsSync_def readFileSync_def isProcessRunning_def kill_def
      isInt32_def number_eval SESSIONS_DIR_def HOME_DIR_def join_def)

lemma demoWorld_unlisted:
  "fst (getAllActiveSessions isProcessRunning (demoWorld None)) = []"
  by (simp add: getAllActiveSessions_def demoWorld_def demoSaved_def demoSession_def
      isSessionRunning_def existsSync_def readFileSync_def isProcessRunning_def kill_def
      isInt32_def number_eval SESSIONS_DIR_def HOME_DIR_def join_def)

lemma demoWorld_found:
  "find (\<lambda>s. SessionConfig.sessionId s = ''fc92274d'') [demoSession] = Some demoSession"
  by (simp add: demoSession_def)

lemma demoWorld_signal:
  "kill (procs (demoWorld None)) (Finite 4242) SIGTERM = Inl ESRCH
   \<and> isProcessRunning (procs (demoWorld (Some \<lparr>permitted = True, exitsOnTerm = False\<rparr>)))
       (Finite 4242) = Inr True
   \<and> kill (procs (demoWorld (Some \<lparr>permitted = True, exitsOnTerm = False\<rparr>))) (Finite 4242) SIGTERM
       = Inr (procs (demoWorld (Some \<lparr>permitted = True, exitsOnTerm = False\<rparr>)))
   \<and> kill (\<lambda>p. if p \<in> {} then None
                else procs (demoWorld (Some \<lparr>permitted = True, exitsOnTerm = False\<rparr>)) p)
        (Finite 4242) SIGTERM
       = Inr (procs (demoWorld (Some \<lparr>permitted = True, exitsOnTerm = False\<rparr>)))
   \<and> kill (\<lambda>p. if p \<in> {4242} then None
                else procs (demoWorld (Some \<lparr>permitted = True, exitsOnTerm = False\<rparr>)) p)
        (Finite 4242) SIGTERM = Inl ESRCH
   \<and> kill (\<lambda>p. if p \<in> {} then None
                else procs (demoWorld (Some \<lparr>permitted = False, exitsOnTerm = False\<rparr>)) p)
        (Finite 4242) SIGTERM = Inl EPERM"
  by (simp add: kill_def isInt32_def isProcessRunning_def demoWorld_def)

theorem stop_cleanup_by_outcome_witness:
  "files (snd (cli_stop isProcessRunning (demoWorld None) demoSession))
       = (files (demoWorld None))(pidFile demoSession := None)
   \<and> files (snd (cli_stop isProcessRunning (demoWorld None) demoSession))
        (referenceCountFile demoSession) = Some (File ''1'')
   \<and> fst (cli_stop isProcessRunning
            (demoWorld (Some \<lparr>permitted = True, exitsOnTerm = False\<rparr>)) demoSession)
       = SuccessfullyStopped
   \<and> fst (stop_endpoint isProcessRunning
            (demoWorld (Some \<lparr>permitted = True, exitsOnTerm = False\<rparr>)) {} ''fc92274d'')
       = \<lparr>statusCode = 200, success = Some True, message = StoppedSuccessfully\<rparr>
   \<and> procs (snd (stop_endpoint isProcessRunning
            (demoWorld (Some \<lparr>permitted = True, exitsOnTerm = False\<rparr>)) {} ''fc92274d'')) 4242
       = None
   \<and> fst (stop_endpoint isProcessRunning
            (demoWorld (Some \<lparr>permitted = True, exitsOnTerm = False\<rparr>)) {4242} ''fc92274d'')
       = \<lparr>statusCode = 200, success = Some True, message = WasAlreadyStopped\<rparr>
   \<and> fst (stop_endpoint isProcessRunning
            (demoWorld (Some \<lparr>permitted = False, exitsOnTerm = False\<rparr>)) {} ''fc92274d'')
       = \<lparr>statusCode = 403, success = None, message = PermissionDenied\<rparr>
   \<and> fst (stop_endpoint isProcessRunning (demoWorld None) {} ''fc92274d'')
       = \<lparr>statusCode = 404, success = None, message = SessionNotFound\<rparr>"
proof -
  define worker where "worker = \<lparr>permitted = True, exitsOnTerm = False\<rparr>"
  define other where "other = \<lparr>permitted = False, exitsOnTerm = False\<rparr>"
  note sig = demoWorld_signal[folded worker_def other_def]
  have rc: "files (demoWorld None) (referenceCountFile demoSession) = Some (File ''1'')"
    by (simp add: demoWorld_def)
  obtain rest where unlisted: "getAllActiveSessions isProcessRunning (demoWorld None) = ([], rest)"
    using demoWorld_unlisted by (cases "getAllActiveSessions isProcessRunning (demoWorld None)") simp
  have recorded: "\<And>worker. getSessionPid (files (demoWorld worker)) demoSession = Some (Finite 4242)
      \<and> truthy (Finite 4242) \<and> referenceCountFile demoSession \<noteq> pidFile demoSession"
    by (rule demoWorld_pid)
  have active: "\<And>p. getAllActiveSessions isProcessRunning (demoWorld (Some p))
        = ([demoSession], demoWorld (Some p))
      \<and> find (\<lambda>s. SessionConfig.sessionId s = ''fc92274d'') [demoSession] = Some demoSession
      \<and> getSessionPid (files (demoWorld (Some p))) demoSession = Some (Finite 4242)
      \<and> truthy (Finite 4242) \<and> referenceCountFile demoSession \<noteq> pidFile demoSession"
    using demoWorld_listed demoWorld_found demoWorld_pid by blast
  have inactive: "getAllActiveSessions isProcessRunning (demoWorld None) = ([], rest)
      \<and> find (\<lambda>s. SessionConfig.sessionId s = ''fc92274d'') [] = None"
    using unlisted by simp
  have failed: "(\<exists>e. isProcessRunning (procs (demoWorld None)) (Finite 4242) = Inl e)
      \<or> (\<exists>e. kill (procs (demoWorld None)) (Finite 4242) SIGTERM = Inl e)"
    using sig by blast
  have delivered: "(\<exists>alive. isProcessRunning (procs (demoWorld (Some worker))) (Finite 4242)
                      = Inr alive)
      \<and> (\<exists>ps. kill (procs (demoWorld (Some worker))) (Finite 4242) SIGTERM = Inr ps)"
    using sig by blast
  have delivered': "\<exists>ps1. kill (\<lambda>p. if p \<in> {} then None else procs (demoWorld (Some worker)) p)
        (Finite 4242) SIGTERM = Inr ps1"
    using sig by blast
  have exited: "kill (\<lambda>p. if p \<in> {4242} then None else procs (demoWorld (Some worker)) p)
        (Finite 4242) SIGTERM = Inl ESRCH"
    using sig by blast
  have refused: "kill (\<lambda>p. if p \<in> {} then None else procs (demoWorld (Some other)) p)
        (Finite 4242) SIGTERM = Inl EPERM"
    using sig by blast
  note dead = stop_cleanup_by_outcome[where running = isProcessRunning and w = "demoWorld None"
      and cfg = demoSession and pid = "Finite 4242", THEN conjunct1, THEN mp, OF recorded,
      THEN conjunct2, THEN conjunct1, THEN mp, OF failed]
  note live = stop_cleanup_by_outcome[where running = isProcessRunning
      and w = "demoWorld (Some worker)" and cfg = demoSession and pid = "Finite 4242",
      THEN conjunct1, THEN mp, OF recorded, THEN conjunct2, THEN conjunct2, THEN mp,
      OF delivered]
  note stopped = stop_cleanup_by_outcome[where running = isProcessRunning
      and ?w0.0 = "demoWorld (Some worker)" and sessions = "[demoSession]"
      and ?w1.0 = "demoWorld (Some worker)" and wanted = "''fc92274d''"
      and session = demoSession and pid' = "Finite 4242" and exited = "{}",
      THEN conjunct2, THEN conjunct1, THEN mp, OF active,
      THEN conjunct2, THEN conjunct1, THEN mp, OF delivered']
  note already = stop_cleanup_by_outcome[where running = isProcessRunning
      and ?w0.0 = "demoWorld (Some worker)" and sessions = "[demoSession]"
      and ?w1.0 = "demoWorld (Some worker)" and wanted = "''fc92274d''"
      and session = demoSession and pid' = "Finite 4242" and exited = "{4242}",
      THEN conjunct2, THEN conjunct1, THEN mp, OF active, THEN conjunct1, THEN mp, OF exited]
  note denied = stop_cleanup_by_outcome[where running = isProcessRunning
      and ?w0.0 = "demoWorld (Some other)" and sessions = "[demoSession]"
      and ?w1.0 = "demoWorld (Some other)" and wanted = "''fc92274d''"
      and session = demoSession and pid' = "Finite 4242" and exited = "{}",
      THEN conjunct2, THEN conjunct1, THEN mp, OF active,
      THEN conjunct2, THEN conjunct2, THEN conjunct1, THEN mp, OF refused]
  note missing = stop_cleanup_by_outcome[where running = isProcessRunning
      and ?w0.0 = "demoWorld None" and sessions = "[]" and ?w1.0 = rest
      and wanted = "''fc92274d''" and exited = "{}",
      THEN conjunct2, THEN conjunct2, THEN mp, OF inactive]
  show ?thesis
    using dead live stopped already denied missing rc recorded
    unfolding worker_def other_def by simp
qed

section \<open>Properties of the monitoring service\<close>

lemmas monitoring_eval =
  run_def startRequest_def endRequest_def updateRequest_def updateSessionMetrics_def
  persistMetrics_def persistRequestLog_def emit_def assign_def orElse_def noUpdate_def
  generateRequestId_def toString_def magnitudeToString_def decimal.simps digitChar_def
  emptyService_def
  maxLogsInMemory_def getSessionMetrics_def successDurations_def mean_def demoRequest_def
  clockAt_def bump_def Let_def

text \<open>
  For concrete runs the simplifier evaluates the bound value of a \<open>let\<close> and the
  scrutinee of a \<open>case\<close> before it looks at their bodies.
\<close>

lemmas eval_congs = let_weak_cong option.case_cong_weak prod.case_cong_weak

text \<open>
  Claim C10. \<open>updateRequest\<close> and \<open>endRequest\<close> with a request id that is not in the
  in-memory map return the service exactly as it was: no entry, metric, log file, metrics
  file, emitted event, frame or console line changes, and there is no branch that raises.
\<close>

theorem unknown_request_is_ignored:
  "map_of (requests s) requestId = None \<Longrightarrow>
   updateRequest c requestId updates s = s \<and> endRequest c requestId response err s = s"
  by (simp add: updateRequest_def endRequest_def)

theorem unknown_request_is_ignored_witness:
  "map_of (requests (run (emptyService True) [StartRequest (clockAt 1000) ''a'' demoRequest]))
       ''req_999_z'' = None
   \<and> updateRequest (clockAt 1100) ''req_999_z'' (noUpdate\<lparr>upd_status := Some Success\<rparr>)
         (run (emptyService True) [StartRequest (clockAt 1000) ''a'' demoRequest])
       = run (emptyService True) [StartRequest (clockAt 1000) ''a'' demoRequest]
   \<and> endRequest (clockAt 1100) ''req_999_z'' None None
         (run (emptyService True) [StartRequest (clockAt 1000) ''a'' demoRequest])
       = run (emptyService True) [StartRequest (clockAt 1000) ''a'' demoRequest]"
proof -
  have unknown:
    "map_of (requests (run (emptyService True) [StartRequest (clockAt 1000) ''a'' demoRequest]))
       ''req_999_z'' = None"
    by (simp add: monitoring_eval cong: eval_congs)
  show ?thesis
    using unknown unknown_request_is_ignored[OF unknown] by simp
qed

text \<open>
  The example of the spec: three successful requests of 100, 200 and 300 ms leave an
  average of 200, the mean of the three durations.
\<close>

lemma average_of_three_successes:
  "map_option averageResponseTime
     (getSessionMetrics ''default'' (run (emptyService True) threeSuccesses)) = Some 200
   \<and> successDurations ''default'' (run (emptyService True) threeSuccesses) = [100, 200, 300]
   \<and> mean (successDurations ''default'' (run (emptyService True) threeSuccesses)) = 200"
  by (simp add: monitoring_eval threeSuccesses_def cong: eval_congs)

text \<open>
  Claim C2, at a concrete run: one request fails, then one request succeeds after
  100 ms. The only successful duration is 100, so the mean of the successful durations
  is 100; the stored \<open>averageResponseTime\<close> is 50, because the running mean divides by
  \<open>requestCount\<close>, which counts every metrics update, the failed request included.
\<close>

theorem average_divides_by_all_updates:
  "map_option averageResponseTime
     (getSessionMetrics ''default'' (run (emptyService True) failureThenSuccess)) = Some 50
   \<and> successDurations ''default'' (run (emptyService True) failureThenSuccess) = [100]
   \<and> mean (successDurations ''default'' (run (emptyService True) failureThenSuccess)) = 100"
  by (simp add: monitoring_eval failureThenSuccess_def cong: eval_congs)

section \<open>Archiving the oldest entries\<close>

lemma emit_keeps [simp]:
  "requests (emit ev p s) = requests s"
  "sessionMetrics (emit ev p s) = sessionMetrics s"
  "listeners (emit ev p s) = listeners s"
  "wsOnClose (emit ev p s) = wsOnClose s"
  "nextClosure (emit ev p s) = nextClosure s"
  "logFiles (emit ev p s) = logFiles s"
  "metricsFile (emit ev p s) = metricsFile s"
  "diskWritable (emit ev p s) = diskWritable s"
  "console (emit ev p s) = console s"
  by (simp_all add: emit_def)

lemma update_fresh: "k \<notin> fst ` set al \<Longrightarrow> AList.update k v al = al @ [(k, v)]"
  by (induction al) auto

text \<open>
  The loop of \<open>archiveOldLogs\<close> over any list of entries, when the disk can be written:
  every entry is appended to the log of the day, in the order of the list, and the map
  loses the keys of the list.
\<close>

lemma archive_loop:
  assumes "diskWritable s"
  shows "requests (foldl (\<lambda>s' entry. (persistRequestLog c (snd entry) s')
                          \<lparr>requests := AList.delete (fst entry) (requests s')\<rparr>) s es)
           = filter (\<lambda>entry. fst entry \<notin> fst ` set es) (requests s)
       \<and> logFiles (foldl (\<lambda>s' entry. (persistRequestLog c (snd entry) s')
                          \<lparr>requests := AList.delete (fst entry) (requests s')\<rparr>) s es)
           = (logFiles s)(day c := logFiles s (day c) @ map snd es)
       \<and> diskWritable (foldl (\<lambda>s' entry. (persistRequestLog c (snd entry) s')
                          \<lparr>requests := AList.delete (fst entry) (requests s')\<rparr>) s es)"
  using assms
proof (induction es arbitrary: s)
  case Nil
  then show ?case by simp
next
  case (Cons e es)
  define s1 where
    "s1 = (persistRequestLog c (snd e) s)\<lparr>requests := AList.delete (fst e) (requests s)\<rparr>"
  have r1: "requests s1 = filter (\<lambda>entry. fst entry \<noteq> fst e) (requests s)"
    by (simp add: s1_def AList.delete_eq case_prod_unfold eq_commute)
  have w1: "diskWritable s1"
    using Cons.prems by (simp add: s1_def persistRequestLog_def)
  have l1: "logFiles s1 = (logFiles s)(day c := logFiles s (day c) @ [snd e])"
    using Cons.prems by (simp add: s1_def persistRequestLog_def)
  have step: "foldl (\<lambda>s' entry. (persistRequestLog c (snd entry) s')
                          \<lparr>requests := AList.delete (fst entry) (requests s')\<rparr>) s (e # es)
            = foldl (\<lambda>s' entry. (persistRequestLog c (snd entry) s')
                          \<lparr>requests := AList.delete (fst entry) (requests s')\<rparr>) s1 es"
    by (simp add: s1_def)
  have both: "filter (\<lambda>entry. fst entry \<notin> fst ` set es) (requests s1)
                = filter (\<lambda>entry. fst entry \<notin> fst ` set (e # es)) (requests s)"
    unfolding r1 by (auto intro: filter_cong)
  show ?case
    unfolding step using Cons.IH[OF w1] by (simp add: l1 both fun_eq_iff del: set_simps)
qed

lemma startRequest_effect:
  "startRequest c rnd req s =
     (requestIdOf (c, rnd, req),
      (let s2 = emit request_start (LogPayload (pendingLog (c, rnd, req)))
                  (s\<lparr>requests := AList.update (requestIdOf (c, rnd, req))
                                    (pendingLog (c, rnd, req)) (requests s)\<rparr>)
       in if length (requests s2) > 1000 then archiveOldLogs c s2 else s2))"
  by (simp add: startRequest_def requestIdOf_def pendingLog_def Let_def maxLogsInMemory_def)

text \<open>A request that still fits: the entry goes to the end of the map, nothing is archived.\<close>

lemma startRequest_fits:
  assumes "requestIdOf x \<notin> fst ` set (requests s)" and "length (requests s) < 1000"
  shows "requests (step s (StartRequest (fst x) (fst (snd x)) (snd (snd x))))
           = requests s @ [(requestIdOf x, pendingLog x)]
       \<and> logFiles (step s (StartRequest (fst x) (fst (snd x)) (snd (snd x)))) = logFiles s
       \<and> diskWritable (step s (StartRequest (fst x) (fst (snd x)) (snd (snd x))))
           = diskWritable s"
proof -
  obtain c rnd req where x: "x = (c, rnd, req)" by (cases x) auto
  show ?thesis
    using assms unfolding x by (simp add: startRequest_effect update_fresh)
qed

lemma run_snoc: "run s (ops @ [operation]) = step (run s ops) operation"
  by (simp add: run_def)

lemma startAll_snoc:
  "startAll (xs @ [x]) = startAll xs @ [StartRequest (fst x) (fst (snd x)) (snd (snd x))]"
  by (simp add: startAll_def)

lemma run_fits:
  assumes "distinct (map fst (requests s) @ map requestIdOf xs)"
    and "length (requests s) + length xs \<le> 1000"
  shows "requests (run s (startAll xs)) = requests s @ map (\<lambda>x. (requestIdOf x, pendingLog x)) xs
       \<and> logFiles (run s (startAll xs)) = logFiles s
       \<and> diskWritable (run s (startAll xs)) = diskWritable s"
  using assms
proof (induction xs rule: rev_induct)
  case Nil
  then show ?case by (simp add: run_def startAll_def)
next
  case (snoc x xs)
  have ih: "requests (run s (startAll xs))
              = requests s @ map (\<lambda>x. (requestIdOf x, pendingLog x)) xs
       \<and> logFiles (run s (startAll xs)) = logFiles s
       \<and> diskWritable (run s (startAll xs)) = diskWritable s"
    using snoc.IH snoc.prems by simp
  have keys: "fst ` set (requests (run s (startAll xs)))
                = fst ` set (requests s) \<union> requestIdOf ` set xs"
    using ih by (auto simp add: image_Un image_image)
  have fresh: "requestIdOf x \<notin> fst ` set (requests (run s (startAll xs)))"
    unfolding keys using snoc.prems(1) by auto
  have room: "length (requests (run s (startAll xs))) < 1000"
    using ih snoc.prems(2) by simp
  show ?case
    unfolding startAll_snoc run_snoc
    using startRequest_fits[OF fresh room] ih by simp
qed

text \<open>
  The request that exceeds the capacity: the map is sorted by timestamp, the first 100
  entries of the sorted list are archived in that order and leave the map.
\<close>

lemma startRequest_overflows:
  assumes fresh: "requestIdOf x \<notin> fst ` set (requests s)"
    and full: "length (requests s) = 1000"
    and writable: "diskWritable s"
  shows "requests (step s (StartRequest (fst x) (fst (snd x)) (snd (snd x))))
           = filter (\<lambda>entry. fst entry \<notin> fst ` set (take 100
                 (sort_key (\<lambda>entry. timestamp (snd entry))
                    (requests s @ [(requestIdOf x, pendingLog x)]))))
               (requests s @ [(requestIdOf x, pendingLog x)])
       \<and> logFiles (step s (StartRequest (fst x) (fst (snd x)) (snd (snd x))))
           = (logFiles s)(day (fst x) := logFiles s (day (fst x))
               @ map snd (take 100 (sort_key (\<lambda>entry. timestamp (snd entry))
                    (requests s @ [(requestIdOf x, pendingLog x)]))))
       \<and> diskWritable (step s (StartRequest (fst x) (fst (snd x)) (snd (snd x))))"
proof -
  obtain c rnd req where x: "x = (c, rnd, req)" by (cases x) auto
  define R where "R = requests s @ [(requestIdOf x, pendingLog x)]"
  define s2 where
    "s2 = emit request_start (LogPayload (pendingLog x)) (s\<lparr>requests := R\<rparr>)"
  have r2: "requests s2 = R" by (simp add: s2_def)
  have len: "length R = 1001" using full by (simp add: R_def)
  have st: "step s (StartRequest (fst x) (fst (snd x)) (snd (snd x))) = archiveOldLogs c s2"
    using fresh len unfolding x s2_def R_def
    by (simp add: startRequest_effect update_fresh)
  have w2: "diskWritable s2" using writable by (simp add: s2_def)
  have l2: "logFiles s2 = logFiles s" by (simp add: s2_def)
  have cx: "day (fst x) = day c" by (simp add: x)
  note loop = archive_loop[OF w2, of c
      "take 100 (sort_key (\<lambda>entry. timestamp (snd entry)) R)"]
  show ?thesis
    unfolding st archiveOldLogs_def r2 R_def[symmetric]
    using loop by (simp add: l2 r2 cx)
qed

text \<open>Sorting commutes with a map, and a list is cut in two by membership in a part of it.\<close>

lemma insort_key_map:
  "insort_key f (g x) (map g ys) = map g (insort_key (\<lambda>y. f (g y)) x ys)"
  by (induction ys) simp_all

lemma sort_key_map: "sort_key f (map g xs) = map g (sort_key (\<lambda>x. f (g x)) xs)"
  by (induction xs) (simp_all add: insort_key_map)

lemma length_filter_out:
  assumes "distinct xs" and "distinct ts" and "set ts \<subseteq> set xs"
  shows "length (filter (\<lambda>x. x \<notin> set ts) xs) = length xs - length ts"
proof -
  have "distinct (filter (\<lambda>x. x \<in> set ts) xs)" using assms(1) by simp
  moreover have "set (filter (\<lambda>x. x \<in> set ts) xs) = set ts" using assms(3) by auto
  ultimately have "length (filter (\<lambda>x. x \<in> set ts) xs) = length ts"
    using assms(2) by (metis distinct_card)
  moreover have "length (filter (\<lambda>x. x \<in> set ts) xs)
                  + length (filter (\<lambda>x. \<not> x \<in> set ts) xs) = length xs"
    by (rule sum_length_filter_compl)
  ultimately show ?thesis by simp
qed

lemma filter_out_take:
  assumes "distinct xs"
  shows "filter (\<lambda>x. x \<notin> set (take n xs)) xs = drop n xs"
proof -
  have d: "set (take n xs) \<inter> set (drop n xs) = {}"
    using assms by (intro set_take_disj_set_drop_if_distinct) simp_all
  have "filter (\<lambda>x. x \<notin> set (take n xs)) (take n xs @ drop n xs) = drop n xs"
  proof -
    have "filter (\<lambda>x. x \<notin> set (take n xs)) (take n xs) = []" by simp
    moreover have "filter (\<lambda>x. x \<notin> set (take n xs)) (drop n xs) = drop n xs"
      using d by (auto simp add: filter_id_conv)
    ultimately show ?thesis by (simp only: filter_append append_Nil)
  qed
  then show ?thesis by simp
qed

lemma sorted_take_drop_le:
  assumes "sorted (map f xs)" and "a \<in> set (take n xs)" and "b \<in> set (drop n xs)"
  shows "f a \<le> f b"
proof -
  have "sorted (map f (take n xs) @ map f (drop n xs))"
    using assms(1) by (simp flip: map_append)
  then show ?thesis using assms(2,3) by (auto simp add: sorted_append)
qed

text \<open>
  The \<open>n\<close> oldest entries are in timestamp order, are entries of the list, and none of
  them is younger than an entry that is not among them.
\<close>

lemma oldest_sorted: "sorted (map timestamp (oldest n logs))"
proof -
  have "sorted (map timestamp (sort_key timestamp logs))" by simp
  then show ?thesis
    unfolding oldest_def take_map[symmetric] by (rule sorted_wrt_take)
qed

lemma oldest_subset: "set (oldest n logs) \<subseteq> set logs"
  using set_take_subset[of n "sort_key timestamp logs"] by (simp add: oldest_def)

lemma oldest_length: "n \<le> length logs \<Longrightarrow> length (oldest n logs) = n"
  by (simp add: oldest_def)

lemma oldest_distinct: "distinct logs \<Longrightarrow> distinct (oldest n logs)"
  by (simp add: oldest_def)

lemma oldest_le_others:
  assumes "a \<in> set (oldest n logs)" and "b \<in> set logs" and "b \<notin> set (oldest n logs)"
  shows "timestamp a \<le> timestamp b"
proof -
  have "set logs = set (take n (sort_key timestamp logs)) \<union> set (drop n (sort_key timestamp logs))"
    by (metis append_take_drop_id set_append set_sort)
  then have "b \<in> set (drop n (sort_key timestamp logs))"
    using assms(2,3) unfolding oldest_def by blast
  moreover have "sorted (map timestamp (sort_key timestamp logs))" by simp
  ultimately show ?thesis
    using assms(1) unfolding oldest_def by (intro sorted_take_drop_le[of timestamp]) simp_all
qed

lemma oldest_if_sorted:
  "sorted (map timestamp logs) \<Longrightarrow> oldest n logs = take n logs"
  by (simp add: oldest_def sort_key_id_if_sorted)

text \<open>Under a clock that runs backwards the oldest entries are the last ones, last first.\<close>

lemma insort_key_greatest:
  "\<forall>y \<in> set ys. f y < f x \<Longrightarrow> insort_key f x ys = ys @ [x]"
  by (induction ys) auto

lemma sort_key_decreasing:
  "sorted_wrt (\<lambda>a b. f b < f a) xs \<Longrightarrow> sort_key f xs = rev xs"
proof (induction xs)
  case Nil
  then show ?case by simp
next
  case (Cons x xs)
  then have "\<forall>y \<in> set (rev xs). f y < f x" by simp
  then have "insort_key f x (rev xs) = rev xs @ [x]" by (rule insort_key_greatest)
  then show ?case using Cons by simp
qed

lemma oldest_if_decreasing:
  assumes "sorted_wrt (\<lambda>a b. timestamp b < timestamp a) logs"
  shows "oldest n logs = rev (drop (length logs - n) logs)"
  by (simp add: oldest_def sort_key_decreasing[OF assms] take_rev)

text \<open>
  Claim C4. Starting from an empty service whose disk can be written, 1100 calls of
  \<open>startRequest\<close> with pairwise different request ids, whatever the clock shows, leave
  exactly 1000 entries in memory. One archive run happens, at the 1001st request: of the
  1001 entries then in memory exactly the 100 oldest are appended to the log of that
  day, in timestamp order (entries of one timestamp in arrival order), and leave the
  memory, where the others and the 99 later entries stay in arrival order; no other log
  file is written; no archived entry is younger than one of the 1001 that stayed. With
  a clock that does not run backwards these are the 100 first of the 1100 entries.
\<close>

theorem archive_after_1100_requests:
  assumes "length inputs = 1100"
    and "distinct (map requestIdOf inputs)"
  shows "length (requests (run (emptyService True) (startAll inputs))) = 1000
       \<and> map snd (requests (run (emptyService True) (startAll inputs)))
           = filter (\<lambda>r. r \<notin> set (oldest 100 (map pendingLog (take 1001 inputs))))
               (map pendingLog (take 1001 inputs))
             @ map pendingLog (drop 1001 inputs)
       \<and> logFiles (run (emptyService True) (startAll inputs)) (day (fst (inputs ! 1000)))
           = oldest 100 (map pendingLog (take 1001 inputs))
       \<and> (\<forall>d. d \<noteq> day (fst (inputs ! 1000)) \<longrightarrow>
             logFiles (run (emptyService True) (startAll inputs)) d = [])
       \<and> length (oldest 100 (map pendingLog (take 1001 inputs))) = 100
       \<and> set (oldest 100 (map pendingLog (take 1001 inputs)))
           \<subseteq> set (map pendingLog (take 1001 inputs))
       \<and> sorted (map timestamp (oldest 100 (map pendingLog (take 1001 inputs))))
       \<and> (\<forall>a \<in> set (oldest 100 (map pendingLog (take 1001 inputs))).
             \<forall>b \<in> set (map pendingLog (take 1001 inputs))
                     - set (oldest 100 (map pendingLog (take 1001 inputs))).
               timestamp a \<le> timestamp b)
       \<and> (sorted (map (\<lambda>x. ms (fst x)) inputs) \<longrightarrow>
             oldest 100 (map pendingLog (take 1001 inputs)) = take 100 (map pendingLog inputs)
           \<and> map snd (requests (run (emptyService True) (startAll inputs)))
               = drop 100 (map pendingLog inputs))"
proof -
  define entry where "entry = (\<lambda>x. (requestIdOf x, pendingLog x))"
  define xs1 where "xs1 = take 1000 inputs"
  define x where "x = inputs ! 1000"
  define xs2 where "xs2 = drop 1001 inputs"
  define first where "first = take 1001 inputs"
  define L where "L = map pendingLog first"
  define A where "A = oldest 100 L"
  have inputs: "inputs = xs1 @ x # xs2"
    unfolding xs1_def x_def xs2_def using id_take_nth_drop[of 1000 inputs] assms(1) by simp
  have len1: "length xs1 = 1000" and len2: "length xs2 = 99"
    using assms(1) by (simp_all add: xs1_def xs2_def)
  have first: "first = xs1 @ [x]"
    unfolding first_def using len1 by (subst inputs) simp
  have lenL: "length L = 1001" using first len1 by (simp add: L_def)
  have ts: "timestamp (pendingLog y) = ms (fst y)" for y
    by (simp add: pendingLog_def)
  have ident: "id' (pendingLog y) = requestIdOf y" for y
    by (simp add: pendingLog_def)
  have ids: "distinct (map requestIdOf first)"
    using assms(2) unfolding first_def by (simp add: take_map[symmetric] del: take_map)
  have key: "map fst (map entry first) = map requestIdOf first"
    by (simp add: entry_def comp_def)
  have logs: "map snd (map entry first) = L"
    by (simp add: entry_def comp_def L_def)
  have key_of_log: "map id' L = map requestIdOf first"
    by (simp add: L_def comp_def ident)
  have distinct_L: "distinct L"
    using ids key_of_log by (metis distinct_map)
  have fst_snd: "fst e = id' (snd e)" if "e \<in> set (map entry first)" for e
    using that by (auto simp add: entry_def ident)
  have inj_id: "inj_on id' (set L)"
    using ids key_of_log by (metis distinct_map)
  define s0 where "s0 = emptyService True"
  define s1 where "s1 = run s0 (startAll xs1)"
  define s2 where "s2 = step s1 (StartRequest (fst x) (fst (snd x)) (snd (snd x)))"
  define s3 where "s3 = run s2 (startAll xs2)"
  have whole: "run s0 (startAll inputs) = s3"
    unfolding s3_def s2_def s1_def inputs by (simp add: run_def startAll_def)
  \<comment> \<open>the first 1000 requests fit\<close>
  have d1: "distinct (map fst (requests s0) @ map requestIdOf xs1)"
    using assms(2) unfolding inputs by (simp add: s0_def emptyService_def)
  have p1: "requests s1 = map entry xs1 \<and> logFiles s1 = (\<lambda>d. []) \<and> diskWritable s1"
    using run_fits[OF d1] len1 unfolding s1_def
    by (simp add: s0_def emptyService_def entry_def)
  \<comment> \<open>the 1001st request overflows\<close>
  have fresh: "requestIdOf x \<notin> fst ` set (requests s1)"
    using assms(2) p1 unfolding inputs by (auto simp add: entry_def image_image)
  have full: "length (requests s1) = 1000" using p1 len1 by simp
  have R: "requests s1 @ [(requestIdOf x, pendingLog x)] = map entry first"
    using p1 by (simp add: first entry_def)
  define S where "S = sort_key (\<lambda>e. timestamp (snd e)) (map entry first)"
  have snd_S: "map snd (take 100 S) = A"
  proof -
    have "map snd S = sort_key timestamp (map snd (map entry first))"
      unfolding S_def by (simp only: sort_key_map[of timestamp snd])
    then have "take 100 (map snd S) = take 100 (sort_key timestamp L)"
      by (simp only: logs)
    then show ?thesis
      unfolding A_def oldest_def by (simp only: take_map)
  qed
  have in_S: "set (take 100 S) \<subseteq> set (map entry first)"
    using set_take_subset[of 100 S] by (simp add: S_def)
  have archived_keys: "fst ` set (take 100 S) = id' ` set A"
  proof -
    have "fst ` set (take 100 S) = (\<lambda>e. id' (snd e)) ` set (take 100 S)"
      using in_S fst_snd by (intro image_cong) auto
    also have "\<dots> = id' ` set (map snd (take 100 S))" by (simp add: image_image)
    finally show ?thesis by (simp only: snd_S)
  qed
  have sub_A: "set A \<subseteq> set L"
    unfolding A_def by (rule oldest_subset)
  have kept: "map snd (filter (\<lambda>e. fst e \<notin> fst ` set (take 100 S)) (map entry first))
                = filter (\<lambda>r. r \<notin> set A) L"
  proof -
    have "filter (\<lambda>e. fst e \<notin> fst ` set (take 100 S)) (map entry first)
            = filter (\<lambda>e. snd e \<notin> set A) (map entry first)"
    proof (rule filter_cong[OF refl])
      fix e assume e: "e \<in> set (map entry first)"
      then have "snd e \<in> set L" using logs by (metis image_eqI set_map)
      then have "(id' (snd e) \<in> id' ` set A) = (snd e \<in> set A)"
        using inj_id sub_A by (auto dest: inj_onD)
      then show "(fst e \<notin> fst ` set (take 100 S)) = (snd e \<notin> set A)"
        unfolding archived_keys fst_snd[OF e] by simp
    qed
    then show ?thesis
      by (simp add: filter_map comp_def logs[symmetric])
  qed
  have p2: "requests s2 = filter (\<lambda>e. fst e \<notin> fst ` set (take 100 S)) (map entry first)
          \<and> logFiles s2 = (\<lambda>d. [])(day (fst x) := A)
          \<and> diskWritable s2"
    using startRequest_overflows[OF fresh full] p1 unfolding s2_def R S_def[symmetric]
    by (simp add: snd_S)
  have len_A: "length A = 100"
    unfolding A_def using lenL by (intro oldest_length) simp
  have distinct_A: "distinct A"
    unfolding A_def using distinct_L by (rule oldest_distinct)
  have len_kept: "length (filter (\<lambda>r. r \<notin> set A) L) = 901"
    using length_filter_out[OF distinct_L distinct_A sub_A] lenL len_A by simp
  have len2': "length (requests s2) = 901"
    using p2 kept len_kept by (metis length_map)
  \<comment> \<open>the last 99 requests fit again\<close>
  have d3: "distinct (map fst (requests s2) @ map requestIdOf xs2)"
  proof -
    have "distinct (map requestIdOf first @ map requestIdOf xs2)"
      using assms(2) unfolding first by (subst (asm) inputs) simp
    then have a: "distinct (map fst (map entry first))"
      and b: "set (map fst (map entry first)) \<inter> set (map requestIdOf xs2) = {}"
      and c: "distinct (map requestIdOf xs2)"
      unfolding key by simp_all
    have "distinct (map fst (requests s2))"
      using p2 a by (simp add: distinct_map_filter)
    moreover have "set (map fst (requests s2)) \<subseteq> set (map fst (map entry first))"
      using p2 by auto
    ultimately show ?thesis using b c by auto
  qed
  have room: "length (requests s2) + length xs2 \<le> 1000"
    using len2' len2 by simp
  have p3: "requests s3 = requests s2 @ map entry xs2 \<and> logFiles s3 = logFiles s2"
    using run_fits[OF d3 room] unfolding s3_def by (simp add: entry_def)
  have c1: "length (requests s3) = 1000" using p3 len2' len2 by simp
  have c2: "map snd (requests s3) = filter (\<lambda>r. r \<notin> set A) L @ map pendingLog xs2"
    using p3 p2 kept by (simp add: entry_def comp_def)
  have c3: "logFiles s3 (day (fst x)) = A" using p3 p2 by simp
  have c4: "\<forall>d. d \<noteq> day (fst x) \<longrightarrow> logFiles s3 d = []" using p3 p2 by simp
  have c7: "sorted (map timestamp A)" unfolding A_def by (rule oldest_sorted)
  have c8: "\<forall>a \<in> set A. \<forall>b \<in> set L - set A. timestamp a \<le> timestamp b"
    unfolding A_def using oldest_le_others by blast
  have c9: "sorted (map (\<lambda>x. ms (fst x)) inputs) \<longrightarrow>
             A = take 100 (map pendingLog inputs)
           \<and> map snd (requests s3) = drop 100 (map pendingLog inputs)"
  proof (rule impI)
    assume "sorted (map (\<lambda>x. ms (fst x)) inputs)"
    then have "sorted (map timestamp (map pendingLog inputs))"
      by (simp add: comp_def ts)
    then have "sorted (take 1001 (map timestamp (map pendingLog inputs)))"
      by (rule sorted_wrt_take)
    then have "sorted (map timestamp L)"
      by (simp add: L_def first_def take_map)
    then have A_eq: "A = take 100 L" unfolding A_def by (rule oldest_if_sorted)
    have t: "take 100 L = take 100 (map pendingLog inputs)"
      by (simp add: L_def first_def take_map)
    have "filter (\<lambda>r. r \<notin> set A) L = drop 100 L"
      unfolding A_eq using distinct_L by (rule filter_out_take)
    then have "map snd (requests s3) = drop 100 L @ map pendingLog xs2"
      using c2 by simp
    also have "\<dots> = drop 100 (map pendingLog inputs)"
      unfolding L_def first using len1 by (subst inputs) simp
    finally show "A = take 100 (map pendingLog inputs)
           \<and> map snd (requests s3) = drop 100 (map pendingLog inputs)"
      using A_eq t by simp
  qed
  show ?thesis
    unfolding whole[unfolded s0_def] x_def[symmetric] first_def[symmetric] L_def[symmetric]
      A_def[symmetric] xs2_def[symmetric]
    using c1 c2 c3 c4 len_A sub_A c7 c8 c9 by blast
qed

lemma toString_inj:
  assumes "0 \<le> a" and "a \<le> 2 ^ 53" and "0 \<le> b" and "b \<le> 2 ^ 53"
    and "toString (Finite a) = toString (Finite b)"
  shows "a = b"
proof -
  have "parseInt (toString (Finite a)) = parseInt (toString (Finite b))"
    using assms(5) by (rule arg_cong)
  then have "Finite a = Finite b"
    by (simp only: parseInt_toString[OF assms(1,2)] parseInt_toString[OF assms(3,4)])
  then show ?thesis by simp
qed

lemma requestIds_distinct:
  assumes "inj_on t {..<n}" and "\<forall>i<n. 0 \<le> t i \<and> t i \<le> 2 ^ 53"
  shows "distinct (map requestIdOf (map (\<lambda>i. (\<lparr>ms = t i, day = d\<rparr>, [], req)) [0..<n]))"
proof -
  have "inj_on (\<lambda>i. ''req_'' @ toString (Finite (t i)) @ ''_'') (set [0..<n])"
  proof (rule inj_onI)
    fix i j :: nat
    assume i: "i \<in> set [0..<n]" and j: "j \<in> set [0..<n]"
      and "''req_'' @ toString (Finite (t i)) @ ''_'' = ''req_'' @ toString (Finite (t j)) @ ''_''"
    then have "toString (Finite (t i)) = toString (Finite (t j))"
      by simp
    moreover have "0 \<le> t i \<and> t i \<le> 2 ^ 53" "0 \<le> t j \<and> t j \<le> 2 ^ 53"
      using assms(2) i j by simp_all
    ultimately have "t i = t j"
      by (intro toString_inj) simp_all
    then show "i = j" using assms(1) i j by (auto dest: inj_onD)
  qed
  then have "distinct (map (\<lambda>i. ''req_'' @ toString (Finite (t i)) @ ''_'') [0..<n])"
    by (simp add: distinct_map)
  then show ?thesis
    by (simp add: requestIdOf_def generateRequestId_def comp_def)
qed

lemma manyRequests_ids: "distinct (map requestIdOf manyRequests)"
  unfolding manyRequests_def
  by (rule requestIds_distinct) (simp_all add: inj_on_def)

lemma backwardRequests_ids: "distinct (map requestIdOf backwardRequests)"
  unfolding backwardRequests_def
  by (rule requestIds_distinct) (simp_all add: inj_on_def)

lemma manyRequests_clock: "sorted (map (\<lambda>x. ms (fst x)) manyRequests)"
proof -
  have "sorted_wrt (\<lambda>i j. 1700000000000 + int i \<le> 1700000000000 + int j) [0..<1100]"
    using sorted_upt[of 0 1100] by (rule sorted_wrt_mono_rel[rotated]) simp
  then show ?thesis
    by (simp add: manyRequests_def comp_def sorted_map)
qed

text \<open>
  With the clock running backwards, of the first 1001 requests the 100 that arrived last
  are the oldest, the last one first.
\<close>

lemma backwardRequests_oldest:
  "oldest 100 (map pendingLog (take 1001 backwardRequests))
     = rev (map pendingLog (drop 901 (take 1001 backwardRequests)))"
proof -
  define L where "L = map pendingLog (take 1001 backwardRequests)"
  have len: "length L = 1001" by (simp add: L_def backwardRequests_def)
  have "sorted_wrt (\<lambda>i j. 1700000001100 - int j < 1700000001100 - int i) [0..<1001]"
    using sorted_wrt_upt[of 0 1001] by (rule sorted_wrt_mono_rel[rotated]) simp
  then have "sorted_wrt (\<lambda>a b. timestamp b < timestamp a) L"
    by (simp add: L_def backwardRequests_def take_map sorted_wrt_map pendingLog_def)
  then have "oldest 100 L = rev (drop (length L - 100) L)"
    by (rule oldest_if_decreasing)
  then show ?thesis
    unfolding len unfolding L_def by (simp add: drop_map)
qed

theorem archive_after_1100_requests_witness:
  "length (requests (run (emptyService True) (startAll manyRequests))) = 1000
   \<and> map snd (requests (run (emptyService True) (startAll manyRequests)))
       = drop 100 (map pendingLog manyRequests)
   \<and> logFiles (run (emptyService True) (startAll manyRequests)) ''2025-01-01''
       = take 100 (map pendingLog manyRequests)
   \<and> length (requests (run (emptyService True) (startAll backwardRequests))) = 1000
   \<and> logFiles (run (emptyService True) (startAll backwardRequests)) ''2025-01-01''
       = rev (map pendingLog (drop 901 (take 1001 backwardRequests)))"
proof -
  have len: "length manyRequests = 1100" by (simp add: manyRequests_def)
  have d: "day (fst (manyRequests ! 1000)) = ''2025-01-01''"
    by (simp add: manyRequests_def)
  have len': "length backwardRequests = 1100" by (simp add: backwardRequests_def)
  have d': "day (fst (backwardRequests ! 1000)) = ''2025-01-01''"
    by (simp add: backwardRequests_def)
  note many = archive_after_1100_requests[OF len manyRequests_ids]
  note monotone = many[THEN conjunct2, THEN conjunct2, THEN conjunct2, THEN conjunct2,
      THEN conjunct2, THEN conjunct2, THEN conjunct2, THEN conjunct2, THEN mp,
      OF manyRequests_clock]
  have f1: "length (requests (run (emptyService True) (startAll manyRequests))) = 1000"
    using many by (rule conjunct1)
  have f2: "map snd (requests (run (emptyService True) (startAll manyRequests)))
         = drop 100 (map pendingLog manyRequests)"
    using monotone by (rule conjunct2)
  have "logFiles (run (emptyService True) (startAll manyRequests)) ''2025-01-01''
         = oldest 100 (map pendingLog (take 1001 manyRequests))"
    using many[THEN conjunct2, THEN conjunct2, THEN conjunct1] unfolding d .
  then have f3: "logFiles (run (emptyService True) (startAll manyRequests)) ''2025-01-01''
         = take 100 (map pendingLog manyRequests)"
    using monotone[THEN conjunct1] by (rule trans)
  note backward = archive_after_1100_requests[OF len' backwardRequests_ids]
  have b1: "length (requests (run (emptyService True) (startAll backwardRequests))) = 1000"
    using backward by (rule conjunct1)
  have b3: "logFiles (run (emptyService True) (startAll backwardRequests)) ''2025-01-01''
         = rev (map pendingLog (drop 901 (take 1001 backwardRequests)))"
    using backward[THEN conjunct2, THEN conjunct2, THEN conjunct1]
    unfolding d' backwardRequests_oldest .
  show ?thesis
    by (rule conjI[OF f1 conjI[OF f2 conjI[OF f3 conjI[OF b1 b3]]]])
qed

section \<open>Subscribers: the initial frame and the disconnect\<close>

subsection \<open>Operations other than subscribing and disconnecting\<close>

lemma inert_refl: "inert ws s s"
  by (simp add: inert_def)

lemma inert_trans: "inert ws s s' \<Longrightarrow> inert ws s' s'' \<Longrightarrow> inert ws s s''"
  by (auto simp add: inert_def quiet_def)

lemma inert_same:
  "listeners s' = listeners s \<Longrightarrow> wsOnClose s' = wsOnClose s \<Longrightarrow>
   nextClosure s' = nextClosure s \<Longrightarrow> wsSent s' = wsSent s \<Longrightarrow> inert ws s s'"
  by (simp add: inert_def)

lemma invoke_grows: "\<exists>frames. invoke l p sent ws = sent ws @ frames"
  by (cases "(l, p, sent)" rule: invoke.cases) (auto simp add: ws_send_def)

lemma invoke_other: "socketOf l \<noteq> ws \<Longrightarrow> invoke l p sent ws = sent ws"
  by (cases "(l, p, sent)" rule: invoke.cases) (auto simp add: ws_send_def)

lemma deliver_grows: "\<exists>frames. foldl (\<lambda>sent l. invoke l p sent) sent ls ws = sent ws @ frames"
proof (induction ls arbitrary: sent)
  case Nil
  then show ?case by simp
next
  case (Cons l ls)
  obtain f1 where f1: "invoke l p sent ws = sent ws @ f1"
    using invoke_grows by blast
  obtain f2 where
    "foldl (\<lambda>sent l. invoke l p sent) (invoke l p sent) ls ws = invoke l p sent ws @ f2"
    using Cons.IH by blast
  then show ?case using f1 by simp
qed

lemma deliver_other:
  "\<forall>l \<in> set ls. socketOf l \<noteq> ws \<Longrightarrow> foldl (\<lambda>sent l. invoke l p sent) sent ls ws = sent ws"
  by (induction ls arbitrary: sent) (simp_all add: invoke_other)

lemma inert_emit: "inert ws s (emit ev p s)"
proof -
  have grows: "\<exists>frames. wsSent (emit ev p s) ws = wsSent s ws @ frames"
    by (simp add: emit_def deliver_grows)
  have other: "wsSent (emit ev p s) ws = wsSent s ws" if "quiet ws s"
  proof -
    have "\<forall>l \<in> set (map snd (filter (\<lambda>el. fst el = ev) (listeners s))). socketOf l \<noteq> ws"
      using that by (auto simp add: quiet_def)
    then show ?thesis by (simp add: emit_def deliver_other)
  qed
  show ?thesis
    using grows other by (simp add: inert_def)
qed

lemma inert_persistMetrics: "inert ws s (persistMetrics c s)"
  by (rule inert_same) (simp_all add: persistMetrics_def)

lemma inert_persistRequestLog: "inert ws s (persistRequestLog c request s)"
  by (rule inert_same) (simp_all add: persistRequestLog_def)

lemma inert_requests: "inert ws s (s\<lparr>requests := r\<rparr>)"
  by (rule inert_same) simp_all

lemma inert_sessionMetrics: "inert ws s (s\<lparr>sessionMetrics := m\<rparr>)"
  by (rule inert_same) simp_all

lemma inert_archive_loop:
  "inert ws s (foldl (\<lambda>s' entry. (persistRequestLog c (snd entry) s')
                          \<lparr>requests := AList.delete (fst entry) (requests s')\<rparr>) s es)"
proof (induction es arbitrary: s)
  case Nil
  then show ?case by (simp add: inert_refl)
next
  case (Cons e es)
  have "inert ws s
          ((persistRequestLog c (snd e) s)\<lparr>requests := AList.delete (fst e) (requests s)\<rparr>)"
    using inert_persistRequestLog inert_requests by (rule inert_trans)
  then show ?case using Cons.IH by (auto intro: inert_trans)
qed

lemma inert_archiveOldLogs: "inert ws s (archiveOldLogs c s)"
  by (simp add: archiveOldLogs_def inert_archive_loop)

lemma inert_startRequest: "inert ws s (snd (startRequest c rnd req s))"
proof -
  define s1 where "s1 = s\<lparr>requests := AList.update (requestIdOf (c, rnd, req))
                            (pendingLog (c, rnd, req)) (requests s)\<rparr>"
  define s2 where "s2 = emit request_start (LogPayload (pendingLog (c, rnd, req))) s1"
  have p2: "inert ws s s2"
    unfolding s2_def s1_def using inert_requests inert_emit by (rule inert_trans)
  have eq: "snd (startRequest c rnd req s)
              = (if length (requests s2) > 1000 then archiveOldLogs c s2 else s2)"
    by (simp add: startRequest_effect s2_def s1_def Let_def)
  have "inert ws s (if length (requests s2) > 1000 then archiveOldLogs c s2 else s2)"
    using p2 inert_archiveOldLogs[of ws s2 c] by (auto intro: inert_trans)
  then show ?thesis unfolding eq .
qed

lemma inert_updateSessionMetrics: "inert ws s (updateSessionMetrics c request s)"
proof -
  have "inert ws s (emit metrics_update p (persistMetrics c (s\<lparr>sessionMetrics := m\<rparr>)))"
    for p m
    using inert_sessionMetrics inert_persistMetrics inert_emit
    by (blast intro: inert_trans)
  then show ?thesis by (simp add: updateSessionMetrics_def Let_def)
qed

lemma inert_updateRequest: "inert ws s (updateRequest c requestId updates s)"
proof (cases "map_of (requests s) requestId")
  case None
  then show ?thesis by (simp add: updateRequest_def inert_refl)
next
  case (Some stored)
  define request where "request = assign stored updates"
  define s1 where "s1 = s\<lparr>requests := AList.update requestId request (requests s)\<rparr>"
  define s2 where
    "s2 = (if RequestLog.sessionId request \<noteq> [] then updateSessionMetrics c request s1 else s1)"
  define s3 where "s3 = emit request_update (LogPayload request) s2"
  have p1: "inert ws s s1" unfolding s1_def by (rule inert_requests)
  have p2: "inert ws s s2"
    unfolding s2_def using p1 inert_updateSessionMetrics[of ws s1 c request]
    by (auto intro: inert_trans)
  have p3: "inert ws s s3"
    unfolding s3_def using p2 inert_emit by (rule inert_trans)
  have p4: "inert ws s (persistRequestLog c request s3)"
    using p3 inert_persistRequestLog by (rule inert_trans)
  have eq: "updateRequest c requestId updates s
              = (if upd_status updates = Some Success \<or> upd_status updates = Some Error
                 then persistRequestLog c request s3 else s3)"
    using Some by (simp add: updateRequest_def Let_def request_def s1_def s2_def s3_def)
  show ?thesis unfolding eq using p3 p4 by simp
qed

lemma inert_endRequest: "inert ws s (endRequest c requestId response err s)"
proof (cases "map_of (requests s) requestId")
  case None
  then show ?thesis by (simp add: endRequest_def inert_refl)
next
  case (Some request)
  have "inert ws s (case map_of (requests (updateRequest c requestId u s)) requestId of
                        None \<Rightarrow> updateRequest c requestId u s
                      | Some ended \<Rightarrow>
                          emit request_end (LogPayload ended) (updateRequest c requestId u s))"
    for u
    using inert_updateRequest[of ws s c requestId u]
      inert_emit[of ws "updateRequest c requestId u s"]
    by (auto split: option.splits intro: inert_trans)
  then show ?thesis using Some by (simp add: endRequest_def Let_def)
qed

lemma inert_clearLogs: "inert ws s (clearLogs sessionFilter s)"
proof -
  have "inert ws s (emit logs_cleared p (s\<lparr>requests := r\<rparr>))" for p r
    using inert_requests inert_emit by (rule inert_trans)
  then show ?thesis by (simp add: clearLogs_def split: option.splits)
qed

lemma inert_resetMetrics: "inert ws s (resetMetrics c sessionFilter s)"
proof -
  have "inert ws s (emit metrics_reset p (persistMetrics c (s\<lparr>sessionMetrics := m\<rparr>)))"
    for p m
    using inert_sessionMetrics inert_persistMetrics inert_emit
    by (blast intro: inert_trans)
  then show ?thesis by (simp add: resetMetrics_def split: option.splits)
qed

subsection \<open>Subscribing\<close>

lemma streamLogs_listeners:
  "listeners (streamLogs ws sessionFilter s) =
     listeners s @
       [(request_start, SendLog (nextClosure s) ws sessionFilter),
        (request_update, SendLog (nextClosure s) ws sessionFilter),
        (request_end, SendLog (nextClosure s) ws sessionFilter),
        (metrics_update, SendMetrics (nextClosure s) ws sessionFilter)]"
  by (simp add: streamLogs_def on_def Let_def split: option.splits)

lemma streamLogs_handlers:
  "wsOnClose (streamLogs ws sessionFilter s) =
     (wsOnClose s)(ws := wsOnClose s ws @
        [Cleanup (SendLog (nextClosure s) ws sessionFilter)
                 (SendMetrics (nextClosure s) ws sessionFilter)])"
  by (simp add: streamLogs_def on_def Let_def split: option.splits)

lemma streamLogs_counter:
  "nextClosure (streamLogs ws sessionFilter s) = nextClosure s + 1"
  by (simp add: streamLogs_def on_def Let_def split: option.splits)

lemma streamLogs_frames:
  "\<exists>frames. wsSent (streamLogs ws sessionFilter s) =
     (wsSent s)(ws := wsSent s ws @ InitialFrame (getRecentRequests sessionFilter 50 s) # frames)"
proof -
  define first where "first = InitialFrame (getRecentRequests sessionFilter 50 s)"
  have "wsSent (streamLogs ws sessionFilter s) = (wsSent s)(ws := wsSent s ws @ first # [])
      \<or> (\<exists>fr. wsSent (streamLogs ws sessionFilter s)
                  = (wsSent s)(ws := wsSent s ws @ first # [fr]))"
    by (auto simp add: streamLogs_def on_def Let_def ws_send_def first_def fun_eq_iff
        split: option.splits)
  then show ?thesis unfolding first_def by blast
qed

lemma getRecentRequests_initial:
  "length (getRecentRequests sessionFilter 50 s) \<le> 50
   \<and> (\<forall>r \<in> set (getRecentRequests sessionFilter 50 s).
         passes sessionFilter (RequestLog.sessionId r))"
proof -
  have "set (getRecentRequests sessionFilter 50 s)
          \<subseteq> set (filter (\<lambda>r. passes sessionFilter (RequestLog.sessionId r))
                     (map snd (requests s)))"
    unfolding getRecentRequests_def using set_take_subset[of 50] by fastforce
  then show ?thesis by (auto simp add: getRecentRequests_def)
qed

subsection \<open>Disconnecting\<close>

lemma removeListener_distinct:
  assumes "distinct (listeners s)"
  shows "distinct (listeners (removeListener ev l s))
       \<and> set (listeners (removeListener ev l s)) = set (listeners s) - {(ev, l)}
       \<and> wsSent (removeListener ev l s) = wsSent s
       \<and> wsOnClose (removeListener ev l s) = wsOnClose s
       \<and> nextClosure (removeListener ev l s) = nextClosure s"
  using assms by (simp add: removeListener_def set_remove1_eq)

lemma runCleanup_distinct:
  assumes "distinct (listeners s)"
  shows "distinct (listeners (runCleanup h s))
       \<and> set (listeners (runCleanup h s)) = set (listeners s) - removed h
       \<and> wsSent (runCleanup h s) = wsSent s
       \<and> wsOnClose (runCleanup h s) = wsOnClose s
       \<and> nextClosure (runCleanup h s) = nextClosure s"
proof -
  obtain sendLog sendMetrics where h: "h = Cleanup sendLog sendMetrics" by (cases h) auto
  define s1 where "s1 = removeListener request_start sendLog s"
  define s2 where "s2 = removeListener request_update sendLog s1"
  define s3 where "s3 = removeListener request_end sendLog s2"
  define s4 where "s4 = removeListener metrics_update sendMetrics s3"
  note r1 = removeListener_distinct[OF assms, of request_start sendLog, folded s1_def]
  note r2 = removeListener_distinct[of s1 request_update sendLog, folded s2_def]
  note r3 = removeListener_distinct[of s2 request_end sendLog, folded s3_def]
  note r4 = removeListener_distinct[of s3 metrics_update sendMetrics, folded s4_def]
  have "runCleanup h s = s4" by (simp add: h s1_def s2_def s3_def s4_def)
  moreover have "distinct (listeners s4)
       \<and> set (listeners s4) = set (listeners s) - removed h
       \<and> wsSent s4 = wsSent s \<and> wsOnClose s4 = wsOnClose s \<and> nextClosure s4 = nextClosure s"
    using r1 r2 r3 r4 by (auto simp add: h)
  ultimately show ?thesis by simp
qed

lemma closeAll_distinct:
  assumes "distinct (listeners s)"
  shows "distinct (listeners (foldl (\<lambda>s' h. runCleanup h s') s hs))
       \<and> set (listeners (foldl (\<lambda>s' h. runCleanup h s') s hs))
           = set (listeners s) - \<Union> (removed ` set hs)
       \<and> wsSent (foldl (\<lambda>s' h. runCleanup h s') s hs) = wsSent s
       \<and> wsOnClose (foldl (\<lambda>s' h. runCleanup h s') s hs) = wsOnClose s
       \<and> nextClosure (foldl (\<lambda>s' h. runCleanup h s') s hs) = nextClosure s"
  using assms
proof (induction hs arbitrary: s)
  case Nil
  then show ?case by simp
next
  case (Cons h hs)
  note one = runCleanup_distinct[OF Cons.prems, of h]
  have d: "distinct (listeners (runCleanup h s))" using one by simp
  show ?case
    using Cons.IH[OF d] one by auto
qed

subsection \<open>Every listener has a close handler on its socket\<close>

lemma registered_empty: "registered (emptyService writable)"
  by (simp add: registered_def emptyService_def)

lemma registered_inert: "inert ws s s' \<Longrightarrow> registered s \<Longrightarrow> registered s'"
  by (simp add: inert_def registered_def)

lemma registered_streamLogs:
  assumes "registered s"
  shows "registered (streamLogs ws sessionFilter s)"
proof -
  define n where "n = nextClosure s"
  define new where
    "new = [(request_start, SendLog n ws sessionFilter),
            (request_update, SendLog n ws sessionFilter),
            (request_end, SendLog n ws sessionFilter),
            (metrics_update, SendMetrics n ws sessionFilter)]"
  define h where "h = Cleanup (SendLog n ws sessionFilter) (SendMetrics n ws sessionFilter)"
  have ls: "listeners (streamLogs ws sessionFilter s) = listeners s @ new"
    by (simp add: streamLogs_listeners new_def n_def)
  have hs: "wsOnClose (streamLogs ws sessionFilter s)
              = (wsOnClose s)(ws := wsOnClose s ws @ [h])"
    by (simp add: streamLogs_handlers h_def n_def)
  have ct: "nextClosure (streamLogs ws sessionFilter s) = n + 1"
    by (simp add: streamLogs_counter n_def)
  have old: "\<forall>el \<in> set (listeners s). callOf (snd el) < n"
    using assms by (simp add: registered_def n_def)
  have new_call: "\<forall>el \<in> set new. callOf (snd el) = n \<and> socketOf (snd el) = ws \<and> el \<in> removed h"
    by (simp add: new_def h_def)
  have disjoint: "set (listeners s) \<inter> set new = {}"
    using old new_call by fastforce
  have "distinct new" by (simp add: new_def)
  then have d: "distinct (listeners s @ new)"
    using assms disjoint by (simp add: registered_def)
  have cover: "\<exists>h' \<in> set (((wsOnClose s)(ws := wsOnClose s ws @ [h])) (socketOf (snd el))).
                 el \<in> removed h'"
    if "el \<in> set (listeners s @ new)" for el
  proof (cases "el \<in> set new")
    case True
    then show ?thesis using new_call by auto
  next
    case False
    then have "el \<in> set (listeners s)" using that by simp
    then obtain h' where "h' \<in> set (wsOnClose s (socketOf (snd el)))" "el \<in> removed h'"
      using assms by (auto simp add: registered_def)
    then show ?thesis by auto
  qed
  have calls: "callOf (snd el) < n + 1" if "el \<in> set (listeners s @ new)" for el
    using that old new_call by fastforce
  show ?thesis
    unfolding registered_def ls hs ct using d cover calls by blast
qed

lemma wsClose_effect:
  assumes "registered s"
  shows "registered (wsClose ws s) \<and> quiet ws (wsClose ws s)
       \<and> wsSent (wsClose ws s) = wsSent s
       \<and> set (listeners (wsClose ws s)) \<subseteq> set (listeners s)"
proof -
  have d: "distinct (listeners s)" using assms by (simp add: registered_def)
  note c = closeAll_distinct[OF d, of "wsOnClose s ws", folded wsClose_def]
  have sub: "set (listeners (wsClose ws s)) \<subseteq> set (listeners s)" using c by auto
  have reg: "registered (wsClose ws s)"
    using assms c sub unfolding registered_def by (simp add: subset_iff)
  have "socketOf (snd el) \<noteq> ws" if el: "el \<in> set (listeners (wsClose ws s))" for el
  proof
    assume same: "socketOf (snd el) = ws"
    have "el \<in> set (listeners s)" using el sub by auto
    then obtain h where "h \<in> set (wsOnClose s ws)" "el \<in> removed h"
      using assms same by (auto simp add: registered_def)
    then have "el \<in> \<Union> (removed ` set (wsOnClose s ws))" by blast
    then show False using el c by simp
  qed
  then have "quiet ws (wsClose ws s)" by (simp add: quiet_def)
  then show ?thesis using reg sub c by simp
qed

subsection \<open>Runs\<close>

lemma wsClose_sent: "wsSent (wsClose ws s) = wsSent s"
proof -
  have one: "wsSent (runCleanup h s') = wsSent s'" for h s'
    by (cases h) (simp add: removeListener_def)
  have "wsSent (foldl (\<lambda>s' h. runCleanup h s') s hs) = wsSent s" for hs
    by (induction hs arbitrary: s) (simp_all add: one)
  then show ?thesis by (simp add: wsClose_def)
qed

lemma step_inert:
  "inert ws s (step s (StartRequest c rnd req))"
  "inert ws s (step s (UpdateRequest c requestId updates))"
  "inert ws s (step s (EndRequest c requestId response err))"
  "inert ws s (step s (ClearLogs sessionFilter))"
  "inert ws s (step s (ResetMetrics c sessionFilter))"
  by (simp_all add: inert_startRequest inert_updateRequest inert_endRequest inert_clearLogs
      inert_resetMetrics)

lemma step_grows: "\<exists>frames. wsSent (step s operation) ws = wsSent s ws @ frames"
proof (cases operation)
  case (StreamLogs ws' sessionFilter)
  obtain frames where "wsSent (streamLogs ws' sessionFilter s) =
     (wsSent s)(ws' := wsSent s ws' @ InitialFrame (getRecentRequests sessionFilter 50 s) # frames)"
    using streamLogs_frames by blast
  then show ?thesis using StreamLogs by (cases "ws' = ws") simp_all
next
  case (WsClose ws')
  then show ?thesis by (simp add: wsClose_sent)
qed (use step_inert[of ws s] in \<open>auto simp add: inert_def\<close>)

lemma run_grows: "\<exists>frames. wsSent (run s ops) ws = wsSent s ws @ frames"
proof (induction ops arbitrary: s)
  case Nil
  then show ?case by (simp add: run_def)
next
  case (Cons operation ops)
  obtain f1 where f1: "wsSent (step s operation) ws = wsSent s ws @ f1"
    using step_grows by blast
  obtain f2 where "wsSent (run (step s operation) ops) ws = wsSent (step s operation) ws @ f2"
    using Cons.IH by blast
  then show ?case using f1 by (simp add: run_def)
qed

lemma step_registered: "registered s \<Longrightarrow> registered (step s operation)"
proof (cases operation)
  case (StreamLogs ws sessionFilter)
  assume "registered s"
  then show ?thesis using StreamLogs by (simp add: registered_streamLogs)
next
  case (WsClose ws)
  assume "registered s"
  then show ?thesis using WsClose wsClose_effect by simp
qed (use step_inert[of 0 s] registered_inert[of 0 s] in auto)

lemma run_registered: "registered s \<Longrightarrow> registered (run s ops)"
  unfolding run_def by (induction ops arbitrary: s) (simp_all add: step_registered)

lemma step_quiet:
  assumes "registered s" and "quiet ws s" and "\<not> subscribes ws operation"
  shows "quiet ws (step s operation) \<and> wsSent (step s operation) ws = wsSent s ws"
proof (cases operation)
  case (StreamLogs ws' sessionFilter)
  then have other: "ws' \<noteq> ws" using assms(3) by simp
  obtain frames where "wsSent (streamLogs ws' sessionFilter s) =
     (wsSent s)(ws' := wsSent s ws' @ InitialFrame (getRecentRequests sessionFilter 50 s) # frames)"
    using streamLogs_frames by blast
  then have "wsSent (streamLogs ws' sessionFilter s) ws = wsSent s ws"
    using other by simp
  moreover have "quiet ws (streamLogs ws' sessionFilter s)"
    using assms(2) other by (auto simp add: quiet_def streamLogs_listeners)
  ultimately show ?thesis using StreamLogs by simp
next
  case (WsClose ws')
  have "set (listeners (wsClose ws' s)) \<subseteq> set (listeners s)"
    using wsClose_effect[OF assms(1)] by simp
  then have "quiet ws (wsClose ws' s)"
    using assms(2) by (auto simp add: quiet_def)
  then show ?thesis using WsClose by (simp add: wsClose_sent)
qed (use assms(2) step_inert[of ws s] in \<open>auto simp add: inert_def quiet_def\<close>)

lemma run_quiet:
  assumes "registered s" and "quiet ws s" and "\<forall>operation \<in> set ops. \<not> subscribes ws operation"
  shows "quiet ws (run s ops) \<and> wsSent (run s ops) ws = wsSent s ws"
  using assms
proof (induction ops arbitrary: s)
  case Nil
  then show ?case by (simp add: run_def)
next
  case (Cons operation ops)
  have one: "quiet ws (step s operation) \<and> wsSent (step s operation) ws = wsSent s ws"
    using Cons.prems by (intro step_quiet) simp_all
  have reg: "registered (step s operation)"
    using Cons.prems(1) by (rule step_registered)
  have "quiet ws (run (step s operation) ops)
      \<and> wsSent (run (step s operation) ops) ws = wsSent (step s operation) ws"
    using Cons.IH[OF reg] one Cons.prems(3) by simp
  then show ?case using one by (simp add: run_def)
qed

lemma run_append: "run s (ops @ ops') = run (run s ops) ops'"
  by (simp add: run_def)

text \<open>
  Claim C9. The frames a socket receives from a call of \<open>streamLogs\<close> on begin with the
  \<open>initial\<close> frame, which holds the at most 50 most recent entries that pass the
  session filter, so it comes before every live \<open>log\<close> or \<open>metrics\<close> frame. In any run
  of the service from its empty state, once the \<open>close\<close> event of a socket has fired no
  listener that sends to this socket is registered any more, and as long as the socket
  is not subscribed again it receives no further frame, whatever else happens.
\<close>

theorem subscriber_initial_frame_and_disconnect:
  "(\<exists>rest. wsSent (run (streamLogs ws sessionFilter s) ops) ws
             = wsSent s ws @ InitialFrame (getRecentRequests sessionFilter 50 s) # rest)
   \<and> length (getRecentRequests sessionFilter 50 s) \<le> 50
   \<and> (\<forall>r \<in> set (getRecentRequests sessionFilter 50 s).
         passes sessionFilter (RequestLog.sessionId r))
   \<and> ((\<forall>operation \<in> set later. \<not> subscribes ws operation) \<longrightarrow>
         wsSent (run (emptyService writable) (earlier @ WsClose ws # later)) ws
           = wsSent (run (emptyService writable) (earlier @ [WsClose ws])) ws
       \<and> (\<forall>el \<in> set (listeners (run (emptyService writable) (earlier @ WsClose ws # later))).
             socketOf (snd el) \<noteq> ws))"
proof (intro conjI impI)
  obtain f1 where f1: "wsSent (streamLogs ws sessionFilter s) =
     (wsSent s)(ws := wsSent s ws @ InitialFrame (getRecentRequests sessionFilter 50 s) # f1)"
    using streamLogs_frames by blast
  obtain f2 where "wsSent (run (streamLogs ws sessionFilter s) ops) ws
                     = wsSent (streamLogs ws sessionFilter s) ws @ f2"
    using run_grows by blast
  then have "wsSent (run (streamLogs ws sessionFilter s) ops) ws
               = wsSent s ws @ InitialFrame (getRecentRequests sessionFilter 50 s) # (f1 @ f2)"
    using f1 by simp
  then show "\<exists>rest. wsSent (run (streamLogs ws sessionFilter s) ops) ws
             = wsSent s ws @ InitialFrame (getRecentRequests sessionFilter 50 s) # rest"
    by blast
next
  show "length (getRecentRequests sessionFilter 50 s) \<le> 50"
    using getRecentRequests_initial by blast
next
  show "\<forall>r \<in> set (getRecentRequests sessionFilter 50 s).
         passes sessionFilter (RequestLog.sessionId r)"
    using getRecentRequests_initial by blast
next
  assume later: "\<forall>operation \<in> set later. \<not> subscribes ws operation"
  define s1 where "s1 = run (emptyService writable) earlier"
  define s2 where "s2 = wsClose ws s1"
  have r1: "registered s1"
    unfolding s1_def using registered_empty by (rule run_registered)
  have c: "registered s2 \<and> quiet ws s2"
    unfolding s2_def using wsClose_effect[OF r1] by simp
  have closed: "run (emptyService writable) (earlier @ [WsClose ws]) = s2"
    by (simp add: run_append s1_def s2_def run_def)
  have whole: "run (emptyService writable) (earlier @ WsClose ws # later) = run s2 later"
    by (simp add: run_append s1_def s2_def run_def)
  have q: "quiet ws (run s2 later) \<and> wsSent (run s2 later) ws = wsSent s2 ws"
    using c later by (intro run_quiet) simp_all
  show "wsSent (run (emptyService writable) (earlier @ WsClose ws # later)) ws
           = wsSent (run (emptyService writable) (earlier @ [WsClose ws])) ws"
    unfolding closed whole using q by simp
  show "\<forall>el \<in> set (listeners (run (emptyService writable) (earlier @ WsClose ws # later))).
             socketOf (snd el) \<noteq> ws"
    unfolding whole using q by (simp add: quiet_def)
qed

lemmas subscriber_eval =
  streamLogs_def on_def wsClose_def removeListener_def ws_send_def getRecentRequests_def
  passes_def getAllSessionMetrics_def beforeClose_def afterClose_def

theorem subscriber_initial_frame_and_disconnect_witness:
  "wsSent (run (emptyService True) (beforeClose @ WsClose 7 # afterClose)) 7
     = wsSent (run (emptyService True) (beforeClose @ [WsClose 7])) 7
   \<and> length (wsSent (run (emptyService True) (beforeClose @ [WsClose 7])) 7) = 5
   \<and> length (wsSent (run (emptyService True) (beforeClose @ WsClose 7 # afterClose)) 8) = 6
   \<and> length (getRecentRequests (Some ''default'') 50 (emptyService True)) \<le> 50
   \<and> (\<exists>rest. wsSent (run (streamLogs 7 None (emptyService True)) afterClose) 7
                = InitialFrame [] # rest)"
proof -
  have later: "\<forall>operation \<in> set afterClose. \<not> subscribes 7 operation"
    by (simp add: afterClose_def)
  have "wsSent (run (emptyService True) (beforeClose @ WsClose 7 # afterClose)) 7
     = wsSent (run (emptyService True) (beforeClose @ [WsClose 7])) 7"
    using subscriber_initial_frame_and_disconnect[where ws = 7 and later = afterClose
        and earlier = beforeClose and writable = True] later
    by blast
  moreover have "length (wsSent (run (emptyService True) (beforeClose @ [WsClose 7])) 7) = 5"
    by (simp add: monitoring_eval subscriber_eval cong: eval_congs)
  moreover have
    "length (wsSent (run (emptyService True) (beforeClose @ WsClose 7 # afterClose)) 8) = 6"
    by (simp add: monitoring_eval subscriber_eval cong: eval_congs)
  moreover have "length (getRecentRequests (Some ''default'') 50 (emptyService True)) \<le> 50"
    using subscriber_initial_frame_and_disconnect[where sessionFilter = "Some ''default''"
        and s = "emptyService True"]
    by blast
  moreover have "\<exists>rest. wsSent (run (streamLogs 7 None (emptyService True)) afterClose) 7
                = InitialFrame [] # rest"
    using subscriber_initial_frame_and_disconnect[where ws = 7 and sessionFilter = None
        and s = "emptyService True" and ops = afterClose]
    by (simp add: emptyService_def getRecentRequests_def)
  ultimately show ?thesis by blast
qed

end
